theory Spec2Isabelle
  imports Main "HOL-Library.Word"
begin

unbundle bit_operations_syntax

section \<open>The log writer of db/log_writer.cc\<close>

text \<open>
  The writer frames logical records into 32768-byte blocks of an append-only file.
  The embedding follows \<^verbatim>\<open>src/db/log_writer.cc\<close>: \<^verbatim>\<open>InitTypeCrc\<close>, the two
  constructors, \<^verbatim>\<open>Writer::AddRecord\<close> and \<^verbatim>\<open>Writer::EmitPhysicalRecord\<close>.
  A \<^verbatim>\<open>Slice(ptr, n)\<close> is the list of the \<open>n\<close> bytes at \<open>ptr\<close>; the pair
  \<^verbatim>\<open>(ptr, left)\<close> of the fragmentation loop is the list of the bytes not yet emitted.
\<close>

type_synonym byte = "8 word"
type_synonym u32 = "32 word"

subsection \<open>Declarations the source includes\<close>

text \<open>
  Modelled from the spec: the constants and the record type tags of
  \<^verbatim>\<open>db/log_format.h\<close>, which is not among the sources. The spec gives
  \<open>BLOCK_SIZE = 32768\<close>, \<open>HEADER_SIZE = 7\<close> and the type codes
  \<open>0\<close> reserved, \<open>1 = Full\<close>, \<open>2 = First\<close>, \<open>3 = Middle\<close>, \<open>4 = Last\<close>;
  the largest type code is \<open>MAX_RECORD_TYPE\<close>.
\<close>

definition kBlockSize :: int where
  "kBlockSize = 32768"

definition kHeaderSize :: int where
  "kHeaderSize = 7"

datatype RecordType = kZeroType | kFullType | kFirstType | kMiddleType | kLastType

fun type_code :: "RecordType \<Rightarrow> nat" where
  "type_code kZeroType = 0"
| "type_code kFullType = 1"
| "type_code kFirstType = 2"
| "type_code kMiddleType = 3"
| "type_code kLastType = 4"

definition kMaxRecordType :: nat where
  "kMaxRecordType = type_code kLastType"

text \<open>
  Modelled from the spec: the checksum primitive of \<^verbatim>\<open>util/crc32c.h\<close>, which is not
  among the sources. The spec names three operations on 32-bit checksums and fixes
  nothing else about them, so they are parameters of every function that uses them:
  \<open>Value\<close> (checksum of a byte range), \<open>Extend\<close> (continue a checksum over more
  bytes) and \<open>Mask\<close> (the storage adjustment).
\<close>

record crc32c =
  Value :: "byte list \<Rightarrow> u32"
  Extend :: "u32 \<Rightarrow> byte list \<Rightarrow> u32"
  Mask :: "u32 \<Rightarrow> u32"

text \<open>
  Modelled from the spec: \<^verbatim>\<open>EncodeFixed32\<close> of \<^verbatim>\<open>util/coding.h\<close>, which is not among
  the sources. The spec says the checksum is encoded into bytes 0-3 little-endian.
\<close>

definition EncodeFixed32 :: "u32 \<Rightarrow> byte list" where
  "EncodeFixed32 v = [ucast v, ucast (drop_bit 8 v), ucast (drop_bit 16 v), ucast (drop_bit 24 v)]"

text \<open>The reading of four little-endian bytes, to state what the encoding means.\<close>

definition le32 :: "byte list \<Rightarrow> nat" where
  "le32 bs = unat (bs ! 0) + 256 * unat (bs ! 1) + 65536 * unat (bs ! 2) + 16777216 * unat (bs ! 3)"

text \<open>
  Modelled from the spec: the status and the sequential file sink (\<^verbatim>\<open>Status\<close> and
  \<^verbatim>\<open>WritableFile\<close> of \<^verbatim>\<open>leveldb/status.h\<close> and \<^verbatim>\<open>leveldb/env.h\<close>, not among the
  sources). The spec gives the sink two operations, \<open>append(bytes) -> Result\<close> and
  \<open>flush() -> Result\<close>, both of which may fail. The sink is an abstract class, so
  the model leaves its behaviour open: a sink keeps the calls it has received, in
  order, and answers each call with a status that is an arbitrary function
  \<open>respond\<close> of the calls received so far (the current one last).
\<close>

datatype 'e Status = OK | Failed 'e

fun ok :: "'e Status \<Rightarrow> bool" where
  "ok OK = True"
| "ok (Failed e) = False"

datatype sink_call = AppendCall "byte list" | FlushCall

record 'e WritableFile =
  calls :: "sink_call list"
  respond :: "sink_call list \<Rightarrow> 'e Status"

definition Append :: "'e WritableFile \<Rightarrow> byte list \<Rightarrow> 'e Status \<times> 'e WritableFile" where
  "Append f data = (let h = calls f @ [AppendCall data] in (respond f h, f\<lparr>calls := h\<rparr>))"

definition Flush :: "'e WritableFile \<Rightarrow> 'e Status \<times> 'e WritableFile" where
  "Flush f = (let h = calls f @ [FlushCall] in (respond f h, f\<lparr>calls := h\<rparr>))"

text \<open>The bytes a sink has been asked to append, in order.\<close>

fun appended :: "sink_call list \<Rightarrow> byte list" where
  "appended [] = []"
| "appended (AppendCall bs # cs) = bs @ appended cs"
| "appended (FlushCall # cs) = appended cs"

subsection \<open>The writer's state\<close>

text \<open>
  The fields of \<^verbatim>\<open>Writer\<close>: \<open>dest\<close> (the sink \<^verbatim>\<open>dest_\<close>), \<open>block_offset\<close> (the
  in-block cursor \<^verbatim>\<open>block_offset_\<close>, a C++ \<^verbatim>\<open>int\<close>) and \<open>type_crc\<close> (the array
  \<^verbatim>\<open>type_crc_\<close>, indexed by type code). The last field, \<open>history\<close>, is not in the
  source: it is a ghost record of what the writer did, one \<open>Trailer leftover bytes\<close>
  for each trailer it appended (the value of \<^verbatim>\<open>leftover\<close> and the slice passed to
  \<^verbatim>\<open>Append\<close>) and one \<open>Emit offset t payload s\<close> for each call of
  \<^verbatim>\<open>EmitPhysicalRecord\<close> (the cursor at entry, the type, the payload and the status
  returned). No branch of the model reads it.
\<close>

datatype 'e event = Trailer int "byte list" | Emit int RecordType "byte list" "'e Status"

record 'e Writer =
  dest :: "'e WritableFile"
  block_offset :: int
  type_crc :: "u32 list"
  history :: "'e event list"

subsection \<open>Construction\<close>

text \<open>
  \<^verbatim>\<open>for (int i = 0; i <= kMaxRecordType; i++) type_crc[i] = crc32c::Value(&t, 1)\<close>
  with \<^verbatim>\<open>t = static_cast<char>(i)\<close>.
\<close>

definition InitTypeCrc :: "crc32c \<Rightarrow> u32 list" where
  "InitTypeCrc crc = map (\<lambda>i. Value crc [of_nat i]) [0..<kMaxRecordType + 1]"

definition Writer_new :: "crc32c \<Rightarrow> 'e WritableFile \<Rightarrow> 'e Writer" where
  "Writer_new crc d = \<lparr>dest = d, block_offset = 0, type_crc = InitTypeCrc crc, history = []\<rparr>"

definition Writer_resume :: "crc32c \<Rightarrow> 'e WritableFile \<Rightarrow> nat \<Rightarrow> 'e Writer" where
  "Writer_resume crc d dest_length =
     \<lparr>dest = d, block_offset = int dest_length mod kBlockSize, type_crc = InitTypeCrc crc,
      history = []\<rparr>"

subsection \<open>EmitPhysicalRecord\<close>

text \<open>
  A failed \<^verbatim>\<open>assert\<close> aborts the program: the result is \<open>None\<close>. Otherwise the
  function returns its status and the writer it leaves. The cursor of a writer is
  never negative, and where the assertions hold every quantity fits its C++ type, so
  the conversions between \<^verbatim>\<open>int\<close> and \<^verbatim>\<open>size_t\<close> keep every value and the
  arithmetic is that of the integers. A build with \<^verbatim>\<open>NDEBUG\<close> drops the assertions;
  they never fail on a run that starts from a constructor (C9 below), so both builds
  agree on every such run.
\<close>

definition EmitPhysicalRecord ::
  "crc32c \<Rightarrow> 'e Writer \<Rightarrow> RecordType \<Rightarrow> byte list \<Rightarrow> ('e Status \<times> 'e Writer) option" where
  "EmitPhysicalRecord crc w t payload =
     (let n = length payload in
      if \<not> n \<le> 0xffff then None
      else if \<not> block_offset w + kHeaderSize + int n \<le> kBlockSize then None
      else
        let buf4 = (of_nat (n AND 0xff) :: byte);
            buf5 = (of_nat (drop_bit 8 n) :: byte);
            buf6 = (of_nat (type_code t) :: byte);
            crc1 = Extend crc (type_crc w ! type_code t) payload;
            crc2 = Mask crc crc1;
            buf = EncodeFixed32 crc2 @ [buf4, buf5, buf6];
            (s1, d1) = Append (dest w) buf;
            (s, d) = (if ok s1
                      then (let (s2, d2) = Append d1 payload
                            in if ok s2 then Flush d2 else (s2, d2))
                      else (s1, d1))
        in Some (s, w\<lparr>dest := d,
                       block_offset := block_offset w + kHeaderSize + int n,
                       history := history w @ [Emit (block_offset w) t payload s]\<rparr>))"

subsection \<open>AddRecord\<close>

text \<open>
  One pass through the body of the \<^verbatim>\<open>do { ... } while\<close> loop. It takes the writer,
  the bytes not yet emitted and the flag \<^verbatim>\<open>begin\<close>, and returns the status of the
  emission, the writer and the bytes left after \<^verbatim>\<open>ptr += fragment_length\<close>. The
  trailer is \<^verbatim>\<open>Slice("\x00\x00\x00\x00\x00\x00", leftover)\<close>; the status of its
  \<^verbatim>\<open>Append\<close> is dropped, as in the source.
\<close>

definition AddRecord_body ::
  "crc32c \<Rightarrow> 'e Writer \<Rightarrow> byte list \<Rightarrow> bool \<Rightarrow> ('e Status \<times> 'e Writer \<times> byte list) option" where
  "AddRecord_body crc w rest begin =
     (let leftover = kBlockSize - block_offset w in
      if \<not> leftover \<ge> 0 then None
      else
        let w1 = (if leftover < kHeaderSize
                  then (let w0 = (if leftover > 0
                                  then w\<lparr>dest := snd (Append (dest w) (take (nat leftover) (replicate 6 0))),
                                         history := history w @
                                           [Trailer leftover (take (nat leftover) (replicate 6 0))]\<rparr>
                                  else w)
                        in w0\<lparr>block_offset := 0\<rparr>)
                  else w)
        in
        if \<not> kBlockSize - block_offset w1 - kHeaderSize \<ge> 0 then None
        else
          let avail = nat (kBlockSize - block_offset w1 - kHeaderSize);
              left = length rest;
              fragment_length = (if left < avail then left else avail);
              end = (left = fragment_length);
              t = (if begin \<and> end then kFullType
                   else if begin then kFirstType
                   else if end then kLastType
                   else kMiddleType)
          in case EmitPhysicalRecord crc w1 t (take fragment_length rest) of
               None \<Rightarrow> None
             | Some (s, w2) \<Rightarrow> Some (s, w2, drop fragment_length rest))"

subsection \<open>What one pass of the loop does\<close>

text \<open>
  Names for the quantities of one pass, used to state what the loop does. For a cursor
  \<open>c\<close> at the top of the body: \<open>header_offset c\<close> is the cursor after the block
  switch of lines 54-67, where the next header starts; \<open>avail_at c\<close> is the source's
  \<^verbatim>\<open>avail\<close>; \<open>fragment_type\<close> is the choice of lines 79-89 from \<^verbatim>\<open>begin\<close> and
  \<^verbatim>\<open>end\<close>; \<open>trailer_events c\<close> is what the switch adds to the history.
\<close>

definition header_offset :: "int \<Rightarrow> int" where
  "header_offset c = (if kBlockSize - c < kHeaderSize then 0 else c)"

definition avail_at :: "int \<Rightarrow> nat" where
  "avail_at c = nat (kBlockSize - header_offset c - kHeaderSize)"

definition fragment_type :: "bool \<Rightarrow> bool \<Rightarrow> RecordType" where
  "fragment_type b e = (if b \<and> e then kFullType else if b then kFirstType
                         else if e then kLastType else kMiddleType)"

definition trailer_events :: "int \<Rightarrow> 'e event list" where
  "trailer_events c = (if 0 < kBlockSize - c \<and> kBlockSize - c < kHeaderSize
                        then [Trailer (kBlockSize - c) (replicate (nat (kBlockSize - c)) 0)] else [])"

text \<open>The writer as lines 50-67 leave it, when the first assertion holds.\<close>

definition pre_emit :: "'e Writer \<Rightarrow> 'e Writer" where
  "pre_emit w =
     (let leftover = kBlockSize - block_offset w in
      if leftover < kHeaderSize
      then (if leftover > 0
            then w\<lparr>dest := snd (Append (dest w) (replicate (nat leftover) 0)),
                   history := history w @ [Trailer leftover (replicate (nat leftover) 0)]\<rparr>
            else w)\<lparr>block_offset := 0\<rparr>
      else w)"

subsection \<open>Facts about EmitPhysicalRecord and the loop body\<close>

lemma EmitPhysicalRecord_None_iff:
  "EmitPhysicalRecord crc w t p = None \<longleftrightarrow>
     \<not> (length p \<le> 65535 \<and> block_offset w + kHeaderSize + int (length p) \<le> kBlockSize)"
  by (simp add: EmitPhysicalRecord_def Let_def split: prod.splits)

lemma EmitPhysicalRecord_SomeD:
  assumes "EmitPhysicalRecord crc w t p = Some (s, w')"
  shows "length p \<le> 65535"
    and "block_offset w + kHeaderSize + int (length p) \<le> kBlockSize"
    and "block_offset w' = block_offset w + kHeaderSize + int (length p)"
    and "history w' = history w @ [Emit (block_offset w) t p s]"
    and "type_crc w' = type_crc w"
    and "respond (dest w') = respond (dest w)"
  using assms
  by (auto simp: EmitPhysicalRecord_def Let_def Append_def Flush_def split: if_splits)

lemma EmitPhysicalRecord_Some_ex:
  assumes "length p \<le> 65535" "block_offset w + kHeaderSize + int (length p) \<le> kBlockSize"
  shows "\<exists>s w'. EmitPhysicalRecord crc w t p = Some (s, w')"
  using assms EmitPhysicalRecord_None_iff [of crc w t p] by (cases "EmitPhysicalRecord crc w t p") auto

lemma AddRecord_body_eq:
  "AddRecord_body crc w rest b =
     (if \<not> block_offset w \<le> kBlockSize then None
      else case EmitPhysicalRecord crc (pre_emit w)
                  (fragment_type b (length rest \<le> avail_at (block_offset w)))
                  (take (min (length rest) (avail_at (block_offset w))) rest) of
             None \<Rightarrow> None
           | Some (s, w2) \<Rightarrow> Some (s, w2, drop (min (length rest) (avail_at (block_offset w))) rest))"
  by (auto simp: AddRecord_body_def Let_def pre_emit_def avail_at_def header_offset_def
        fragment_type_def min_def kBlockSize_def kHeaderSize_def
      cong: option.case_cong prod.case_cong)

lemma pre_emit_simps:
  "block_offset (pre_emit w) = header_offset (block_offset w)"
  "history (pre_emit w) = history w @ trailer_events (block_offset w)"
  "type_crc (pre_emit w) = type_crc w"
  "respond (dest (pre_emit w)) = respond (dest w)"
  by (simp_all add: pre_emit_def header_offset_def trailer_events_def Let_def Append_def)

lemma pre_emit_calls:
  "calls (dest (pre_emit w)) = calls (dest w) @
     (if 0 < kBlockSize - block_offset w \<and> kBlockSize - block_offset w < kHeaderSize
      then [AppendCall (replicate (nat (kBlockSize - block_offset w)) 0)] else [])"
  by (simp add: pre_emit_def Let_def Append_def)

lemma header_offset_bounds:
  assumes "0 \<le> c"
  shows "0 \<le> header_offset c" and "header_offset c + kHeaderSize \<le> kBlockSize"
  using assms by (simp_all add: header_offset_def kBlockSize_def kHeaderSize_def)

lemma avail_at_le: "0 \<le> c \<Longrightarrow> avail_at c \<le> 32761"
  by (auto simp: avail_at_def header_offset_def kBlockSize_def kHeaderSize_def)

lemma int_avail_at:
  "0 \<le> c \<Longrightarrow> int (avail_at c) = kBlockSize - header_offset c - kHeaderSize"
  by (simp add: avail_at_def header_offset_def kBlockSize_def kHeaderSize_def)

lemma AddRecord_body_SomeD:
  assumes body: "AddRecord_body crc w rest b = Some (s, w', rest')"
  shows "block_offset w \<le> kBlockSize"
    and "rest' = drop (min (length rest) (avail_at (block_offset w))) rest"
    and "block_offset w' = header_offset (block_offset w) + kHeaderSize
           + int (min (length rest) (avail_at (block_offset w)))"
    and "history w' = history w @ trailer_events (block_offset w) @
           [Emit (header_offset (block_offset w))
              (fragment_type b (length rest \<le> avail_at (block_offset w)))
              (take (min (length rest) (avail_at (block_offset w))) rest) s]"
    and "type_crc w' = type_crc w"
    and "respond (dest w') = respond (dest w)"
proof -
  let ?n = "min (length rest) (avail_at (block_offset w))"
  let ?t = "fragment_type b (length rest \<le> avail_at (block_offset w))"
  from body show le: "block_offset w \<le> kBlockSize"
    by (simp add: AddRecord_body_eq split: if_splits)
  with body have e: "EmitPhysicalRecord crc (pre_emit w) ?t (take ?n rest) = Some (s, w')"
    and r: "rest' = drop ?n rest"
    by (auto simp: AddRecord_body_eq split: option.splits)
  show "rest' = drop ?n rest" by (rule r)
  show "block_offset w' = header_offset (block_offset w) + kHeaderSize + int ?n"
    using EmitPhysicalRecord_SomeD(3) [OF e] by (simp add: pre_emit_simps)
  show "history w' = history w @ trailer_events (block_offset w) @
           [Emit (header_offset (block_offset w)) ?t (take ?n rest) s]"
    using EmitPhysicalRecord_SomeD(4) [OF e] by (simp add: pre_emit_simps)
  show "type_crc w' = type_crc w"
    using EmitPhysicalRecord_SomeD(5) [OF e] by (simp add: pre_emit_simps)
  show "respond (dest w') = respond (dest w)"
    using EmitPhysicalRecord_SomeD(6) [OF e] by (simp add: pre_emit_simps)
qed

lemma AddRecord_body_Some_ex:
  assumes "0 \<le> block_offset w" "block_offset w \<le> kBlockSize"
  shows "\<exists>s w'. AddRecord_body crc w rest b =
           Some (s, w', drop (min (length rest) (avail_at (block_offset w))) rest)"
proof -
  let ?n = "min (length rest) (avail_at (block_offset w))"
  have n: "int ?n \<le> kBlockSize - header_offset (block_offset w) - kHeaderSize"
    using int_avail_at [OF assms(1)] by simp
  have "length (take ?n rest) \<le> 65535"
    using avail_at_le [OF assms(1)] by simp
  moreover have "block_offset (pre_emit w) + kHeaderSize + int (length (take ?n rest)) \<le> kBlockSize"
    using n by (simp add: pre_emit_simps)
  ultimately obtain s w' where
    "EmitPhysicalRecord crc (pre_emit w)
       (fragment_type b (length rest \<le> avail_at (block_offset w))) (take ?n rest) = Some (s, w')"
    using EmitPhysicalRecord_Some_ex by blast
  then show ?thesis
    using assms(2) by (simp add: AddRecord_body_eq)
qed

lemma AddRecord_body_measure:
  assumes "AddRecord_body crc w rest b = Some (s, w', rest')" "rest' \<noteq> []"
  shows "2 * length rest' + (if block_offset w' = kBlockSize - kHeaderSize then 1 else 0)
       < 2 * length rest + (if block_offset w = kBlockSize - kHeaderSize then 1 else (0::nat))"
proof -
  note d = AddRecord_body_SomeD [OF assms(1)]
  let ?a = "avail_at (block_offset w)"
  from assms(2) d(2) have lt: "?a < length rest"
    by (simp add: min_def split: if_splits)
  then have m: "min (length rest) ?a = ?a"
    by simp
  have a: "int ?a = kBlockSize - header_offset (block_offset w) - kHeaderSize
         \<or> (?a = 0 \<and> kBlockSize - header_offset (block_offset w) - kHeaderSize < 0)"
    by (auto simp: avail_at_def)
  show ?thesis
    using d(1) d(2) d(3) lt a unfolding m
    by (auto simp: header_offset_def kBlockSize_def kHeaderSize_def split: if_splits)
qed

subsection \<open>The loop and AddRecord\<close>

text \<open>
  The \<^verbatim>\<open>do { ... } while (s.ok() && left > 0)\<close> loop: the body runs once, and again
  while the emission succeeded and bytes are left. A pass that emits no byte (a
  header alone at the end of a block) is followed by one that starts a new block, so
  the loop ends; the measure of the termination proof says so.
\<close>

function AddRecord_loop ::
  "crc32c \<Rightarrow> 'e Writer \<Rightarrow> byte list \<Rightarrow> bool \<Rightarrow> ('e Status \<times> 'e Writer) option" where
  "AddRecord_loop crc w rest begin =
     (case AddRecord_body crc w rest begin of
        None \<Rightarrow> None
      | Some (s, w', rest') \<Rightarrow>
          if ok s \<and> length rest' > 0 then AddRecord_loop crc w' rest' False else Some (s, w'))"
  by pat_completeness auto
termination
  by (relation "measure (\<lambda>(crc, w, rest, b).
        2 * length rest + (if block_offset w = kBlockSize - kHeaderSize then 1 else 0))")
     (auto dest: AddRecord_body_measure)

declare AddRecord_loop.simps [simp del]

text \<open>\<^verbatim>\<open>Writer::AddRecord(slice)\<close>: the loop over all bytes of the slice, with \<^verbatim>\<open>begin = true\<close>.\<close>

definition AddRecord :: "crc32c \<Rightarrow> 'e Writer \<Rightarrow> byte list \<Rightarrow> ('e Status \<times> 'e Writer) option" where
  "AddRecord crc w payload = AddRecord_loop crc w payload True"

text \<open>A sequence of \<^verbatim>\<open>AddRecord\<close> calls on one writer, whatever status each call returns.\<close>

fun AddRecords :: "crc32c \<Rightarrow> 'e Writer \<Rightarrow> byte list list \<Rightarrow> 'e Writer option" where
  "AddRecords crc w [] = Some w"
| "AddRecords crc w (p # ps) =
     (case AddRecord crc w p of None \<Rightarrow> None | Some (s, w') \<Rightarrow> AddRecords crc w' ps)"

subsection \<open>Concrete inputs to run the writer on\<close>

text \<open>
  Two families of sinks for concrete runs: an empty file on which every call succeeds,
  and an empty file on which the calls from the \<open>k\<close>-th on fail.
\<close>

definition sink_ok :: "unit WritableFile" where
  "sink_ok = \<lparr>calls = [], respond = (\<lambda>h. OK)\<rparr>"

definition sink_failing_from :: "nat \<Rightarrow> unit WritableFile" where
  "sink_failing_from k = \<lparr>calls = [], respond = (\<lambda>h. if k \<le> length h then Failed () else OK)\<rparr>"

text \<open>
  A checksum to run the writer with where a closed statement needs one: the sum of the
  bytes. The theorems below hold for every checksum, and no concrete run below depends
  on what this one computes.
\<close>

definition crc_sum :: crc32c where
  "crc_sum = \<lparr>Value = (\<lambda>bs. sum_list (map ucast bs)),
              Extend = (\<lambda>c bs. c + sum_list (map ucast bs)),
              Mask = (\<lambda>c. c + 1)\<rparr>"

text \<open>What a call returned: its status, and the cursor and the history of the writer it left.\<close>

definition outcome :: "('e Status \<times> 'e Writer) option \<Rightarrow> ('e Status \<times> int \<times> 'e event list) option" where
  "outcome r = map_option (\<lambda>(s, w). (s, block_offset w, history w)) r"

subsection \<open>The header of a physical record\<close>

text \<open>
  The seven bytes \<^verbatim>\<open>buf\<close> that \<^verbatim>\<open>EmitPhysicalRecord\<close> builds from the table
  \<^verbatim>\<open>type_crc_\<close>, the type and the payload, named so that theorems can speak of them.
\<close>

definition header_of :: "crc32c \<Rightarrow> u32 list \<Rightarrow> RecordType \<Rightarrow> byte list \<Rightarrow> byte list" where
  "header_of crc tab t payload =
     EncodeFixed32 (Mask crc (Extend crc (tab ! type_code t) payload)) @
       [of_nat (length payload AND 0xff), of_nat (drop_bit 8 (length payload)), of_nat (type_code t)]"

lemma le32_arith:
  fixes x :: nat assumes "x < 4294967296"
  shows "x mod 256 + 256 * (x div 256 mod 256) + 65536 * (x div 65536 mod 256)
          + 16777216 * (x div 16777216 mod 256) = x"
proof -
  define a where "a = x div 256"
  define b where "b = a div 256"
  define c where "c = b div 256"
  have b: "x div 65536 = b" and c: "x div 16777216 = c"
    by (simp_all add: a_def b_def c_def div_mult2_eq)
  have "c < 256"
    using assms unfolding c [symmetric] by simp
  then have c': "c mod 256 = c"
    by simp
  have "x = x mod 256 + 256 * a" "a = a mod 256 + 256 * b" "b = b mod 256 + 256 * c"
    by (simp_all add: a_def b_def c_def)
  then show ?thesis
    unfolding b c c' a_def [symmetric] by linarith
qed

lemma le32_EncodeFixed32: "le32 (EncodeFixed32 v) = unat v"
proof -
  have "unat v < 4294967296"
    using unsigned_less [of v] by simp
  then show ?thesis
    using le32_arith [of "unat v"]
    by (simp add: le32_def EncodeFixed32_def unsigned_ucast_eq unat_drop_bit_eq take_bit_eq_mod)
       (simp add: drop_bit_eq_div)
qed

lemma length_low_byte: "unat (of_nat (n AND 0xff) :: byte) = n mod 256"
proof -
  have "n AND 255 = take_bit 8 n"
    using take_bit_eq_mask [of 8 n] by (simp add: mask_eq_exp_minus_1)
  then show ?thesis
    by (simp add: unsigned_of_nat take_bit_eq_mod)
qed

lemma length_high_byte:
  assumes "n \<le> 65535"
  shows "unat (of_nat (drop_bit 8 n) :: byte) = n div 256"
proof -
  have "n div 256 < 256"
    using assms by simp
  then show ?thesis
    by (simp add: unsigned_of_nat take_bit_eq_mod drop_bit_eq_div)
qed

lemma InitTypeCrc_nth: "InitTypeCrc crc ! type_code t = Value crc [of_nat (type_code t)]"
  by (cases t) (simp_all add: InitTypeCrc_def kMaxRecordType_def nth_append)

lemma header_of_fields:
  "length (header_of crc tab t p) = 7"
  "take 4 (header_of crc tab t p) = EncodeFixed32 (Mask crc (Extend crc (tab ! type_code t) p))"
  "le32 (header_of crc tab t p) = unat (Mask crc (Extend crc (tab ! type_code t) p))"
  "unat (header_of crc tab t p ! 4) = length p mod 256"
  "length p \<le> 65535 \<Longrightarrow> unat (header_of crc tab t p ! 5) = length p div 256"
  "header_of crc tab t p ! 6 = of_nat (type_code t)"
proof -
  have e: "length (EncodeFixed32 v) = 4" for v
    by (simp add: EncodeFixed32_def)
  show "length (header_of crc tab t p) = 7"
    by (simp add: header_of_def e)
  show "take 4 (header_of crc tab t p) = EncodeFixed32 (Mask crc (Extend crc (tab ! type_code t) p))"
    by (simp add: header_of_def e)
  have "le32 (EncodeFixed32 v @ bs) = le32 (EncodeFixed32 v)" for v bs
    by (simp add: le32_def EncodeFixed32_def)
  then show "le32 (header_of crc tab t p) = unat (Mask crc (Extend crc (tab ! type_code t) p))"
    by (simp add: header_of_def le32_EncodeFixed32)
  show "unat (header_of crc tab t p ! 4) = length p mod 256"
    using length_low_byte [of "length p"] by (simp add: header_of_def nth_append e)
  show "length p \<le> 65535 \<Longrightarrow> unat (header_of crc tab t p ! 5) = length p div 256"
    using length_high_byte [of "length p"] by (simp add: header_of_def nth_append e)
  show "header_of crc tab t p ! 6 = of_nat (type_code t)"
    by (simp add: header_of_def nth_append e)
qed

lemma EmitPhysicalRecord_calls:
  assumes "EmitPhysicalRecord crc w t p = Some (s, w')"
  shows "\<exists>more. calls (dest w') = calls (dest w) @ AppendCall (header_of crc (type_crc w) t p) # more"
  using assms
  by (auto simp: EmitPhysicalRecord_def Let_def Append_def Flush_def header_of_def split: if_splits)

subsection \<open>Reading the history\<close>

text \<open>
  The types, payloads and statuses of the physical records in a history, in emission
  order (trailers are skipped).
\<close>

fun emitted_types :: "'e event list \<Rightarrow> RecordType list" where
  "emitted_types [] = []"
| "emitted_types (Trailer l zs # es) = emitted_types es"
| "emitted_types (Emit off t p s # es) = t # emitted_types es"

fun emitted_payloads :: "'e event list \<Rightarrow> byte list list" where
  "emitted_payloads [] = []"
| "emitted_payloads (Trailer l zs # es) = emitted_payloads es"
| "emitted_payloads (Emit off t p s # es) = p # emitted_payloads es"

fun emitted_statuses :: "'e event list \<Rightarrow> 'e Status list" where
  "emitted_statuses [] = []"
| "emitted_statuses (Trailer l zs # es) = emitted_statuses es"
| "emitted_statuses (Emit off t p s # es) = s # emitted_statuses es"

text \<open>
  \<open>framed c es\<close>: the events \<open>es\<close> are what a writer whose cursor is \<open>c\<close> may do
  next. A trailer is written only when between 1 and 6 bytes are left in the block,
  it consists of exactly that many zero bytes, and a header follows it at offset 0.
  A header starts at the cursor, or at offset 0 when the block is exactly full; at
  least \<open>kHeaderSize\<close> bytes of the block lie after its start, and header and payload
  end within the block. The cursor after a record is its end.
\<close>

fun framed :: "int \<Rightarrow> 'e event list \<Rightarrow> bool" where
  "framed c [] = True"
| "framed c (Trailer l zs # es) =
     (l = kBlockSize - c \<and> 0 < l \<and> l < kHeaderSize \<and> zs = replicate (nat l) 0 \<and>
      es \<noteq> [] \<and> framed 0 es)"
| "framed c (Emit off t p s # es) =
     (0 \<le> off \<and> (off = c \<or> (c = kBlockSize \<and> off = 0)) \<and>
      kHeaderSize \<le> kBlockSize - off \<and>
      length p \<le> 0xffff \<and> off + kHeaderSize + int (length p) \<le> kBlockSize \<and>
      framed (off + kHeaderSize + int (length p)) es)"

text \<open>
  The cursor a history leaves: a trailer is followed by a reset to 0, a physical
  record ends \<open>kHeaderSize + length\<close> bytes after its start.
\<close>

fun cursor_after :: "int \<Rightarrow> 'e event list \<Rightarrow> int" where
  "cursor_after c [] = c"
| "cursor_after c (Trailer l zs # es) = cursor_after 0 es"
| "cursor_after c (Emit off t p s # es) = cursor_after (off + kHeaderSize + int (length p)) es"

text \<open>
  The calls a sink receives for a history. \<open>emission_calls r h hdr p\<close> are the calls
  of one \<^verbatim>\<open>EmitPhysicalRecord\<close> on a sink that has received \<open>h\<close> and answers by
  \<open>r\<close>: the header, then the payload if the header append succeeded, then the flush
  if the payload append succeeded. \<open>sink_calls crc tab r h es\<close> are the calls the
  sink has received after the events \<open>es\<close>, when it had received \<open>h\<close> before them:
  one \<open>Append\<close> of its bytes for a trailer, the calls of the emission for a physical
  record, in the order of the events.
\<close>

definition emission_calls ::
  "(sink_call list \<Rightarrow> 'e Status) \<Rightarrow> sink_call list \<Rightarrow> byte list \<Rightarrow> byte list \<Rightarrow> sink_call list" where
  "emission_calls r h hdr p =
     (if \<not> ok (r (h @ [AppendCall hdr])) then [AppendCall hdr]
      else if \<not> ok (r (h @ [AppendCall hdr, AppendCall p])) then [AppendCall hdr, AppendCall p]
      else [AppendCall hdr, AppendCall p, FlushCall])"

fun sink_calls ::
  "crc32c \<Rightarrow> u32 list \<Rightarrow> (sink_call list \<Rightarrow> 'e Status) \<Rightarrow> sink_call list \<Rightarrow> 'e event list
     \<Rightarrow> sink_call list" where
  "sink_calls crc tab r h [] = h"
| "sink_calls crc tab r h (Trailer l zs # es) = sink_calls crc tab r (h @ [AppendCall zs]) es"
| "sink_calls crc tab r h (Emit off t p s # es) =
     sink_calls crc tab r (h @ emission_calls r h (header_of crc tab t p) p) es"

text \<open>A physical record whose header is the first thing in its block.\<close>

fun at_block_start :: "'e event \<Rightarrow> bool" where
  "at_block_start (Trailer l zs) = False"
| "at_block_start (Emit off t p s) = (off = 0)"

subsection \<open>Facts about the loop\<close>

lemma emitted_types_append [simp]: "emitted_types (xs @ ys) = emitted_types xs @ emitted_types ys"
  by (induction xs rule: emitted_types.induct) simp_all

lemma emitted_payloads_append [simp]:
  "emitted_payloads (xs @ ys) = emitted_payloads xs @ emitted_payloads ys"
  by (induction xs rule: emitted_payloads.induct) simp_all

lemma emitted_statuses_append [simp]:
  "emitted_statuses (xs @ ys) = emitted_statuses xs @ emitted_statuses ys"
  by (induction xs rule: emitted_statuses.induct) simp_all

lemma emitted_trailer_events [simp]:
  "emitted_types (trailer_events c) = []"
  "emitted_payloads (trailer_events c) = []"
  "emitted_statuses (trailer_events c) = []"
  by (simp_all add: trailer_events_def)

lemma framed_pass:
  assumes "0 \<le> c" "c \<le> kBlockSize" "length p \<le> avail_at c"
    and "framed (header_offset c + kHeaderSize + int (length p)) k"
  shows "framed c (trailer_events c @ Emit (header_offset c) t p s # k)"
proof -
  have "int (length p) \<le> kBlockSize - header_offset c - kHeaderSize"
    using assms(3) int_avail_at [OF assms(1)] by linarith
  moreover have "length p \<le> 65535"
    using assms(3) avail_at_le [OF assms(1)] by linarith
  ultimately show ?thesis
    using assms(1,2,4)
    by (auto simp: trailer_events_def header_offset_def kBlockSize_def kHeaderSize_def)
qed

lemma AddRecord_loop_cases:
  assumes "AddRecord_loop crc w rest b = Some (s, w')"
  obtains (last) rest' where "AddRecord_body crc w rest b = Some (s, w', rest')"
      "\<not> (ok s \<and> rest' \<noteq> [])"
    | (step) s1 w1 rest1 where "AddRecord_body crc w rest b = Some (s1, w1, rest1)"
      "ok s1" "rest1 \<noteq> []" "AddRecord_loop crc w1 rest1 False = Some (s, w')"
  using assms
  by (subst (asm) AddRecord_loop.simps) (auto split: option.splits if_splits)

lemma AddRecord_loop_induct [consumes 1, case_names last step]:
  assumes run: "AddRecord_loop crc w rest b = Some (s, w')"
    and last: "\<And>crc w rest b rest'. AddRecord_body crc w rest b = Some (s, w', rest') \<Longrightarrow>
                \<not> (ok s \<and> rest' \<noteq> []) \<Longrightarrow> P w rest b"
    and step: "\<And>crc w rest b s1 w1 rest1. AddRecord_body crc w rest b = Some (s1, w1, rest1) \<Longrightarrow>
                ok s1 \<Longrightarrow> rest1 \<noteq> [] \<Longrightarrow> AddRecord_loop crc w1 rest1 False = Some (s, w') \<Longrightarrow>
                P w1 rest1 False \<Longrightarrow> P w rest b"
  shows "P w rest b"
  using run
proof (induction crc w rest b rule: AddRecord_loop.induct)
  case (1 crc w rest b)
  from "1.prems" show ?case
  proof (cases rule: AddRecord_loop_cases)
    case (last rest')
    then show ?thesis by (rule assms(2))
  next
    case (step s1 w1 rest1)
    have "P w1 rest1 False"
      using "1.IH" [OF step(1) refl refl] step(2,3,4) by simp
    with step show ?thesis by (rule assms(3))
  qed
qed

lemma AddRecord_loop_Some_ex:
  assumes "0 \<le> block_offset w" "block_offset w \<le> kBlockSize"
  shows "\<exists>s w'. AddRecord_loop crc w rest b = Some (s, w')"
  using assms
proof (induction crc w rest b rule: AddRecord_loop.induct)
  case (1 crc w rest b)
  from AddRecord_body_Some_ex [OF "1.prems"] obtain s1 w1 rest1
    where body: "AddRecord_body crc w rest b = Some (s1, w1, rest1)"
    by blast
  show ?case
  proof (cases "ok s1 \<and> rest1 \<noteq> []")
    case True
    note d = AddRecord_body_SomeD [OF body]
    have "0 \<le> block_offset w1" "block_offset w1 \<le> kBlockSize"
      using d(3) header_offset_bounds [OF "1.prems"(1)] int_avail_at [OF "1.prems"(1)]
      by (simp_all add: kHeaderSize_def)
    from "1.IH" [OF body refl refl _ this] True
    have "\<exists>s w'. AddRecord_loop crc w1 rest1 False = Some (s, w')"
      by simp
    with body True show ?thesis
      by (subst AddRecord_loop.simps) simp
  next
    case False
    with body show ?thesis
      by (subst AddRecord_loop.simps) auto
  qed
qed

lemma AddRecord_body_cursor:
  assumes "AddRecord_body crc w rest b = Some (s, w', rest')" "0 \<le> block_offset w"
  shows "0 \<le> block_offset w'" "block_offset w' \<le> kBlockSize"
  using AddRecord_body_SomeD(3) [OF assms(1)] header_offset_bounds [OF assms(2)]
    int_avail_at [OF assms(2)]
  by (simp_all add: kHeaderSize_def)

lemma cursor_after_append: "cursor_after c (xs @ ys) = cursor_after (cursor_after c xs) ys"
  by (induction c xs rule: cursor_after.induct) simp_all

lemma cursor_after_pass:
  "cursor_after c (trailer_events c' @ [Emit off t p s]) = off + kHeaderSize + int (length p)"
  by (simp add: trailer_events_def)

lemma framed_appendD: "framed c (xs @ ys) \<Longrightarrow> framed (cursor_after c xs) ys"
  by (induction c xs rule: cursor_after.induct) simp_all

lemma framed_EmitD:
  "framed c es \<Longrightarrow> Emit off t p s \<in> set es \<Longrightarrow>
     0 \<le> off \<and> kHeaderSize \<le> kBlockSize - off \<and> length p \<le> 65535 \<and>
     off + kHeaderSize + int (length p) \<le> kBlockSize"
  by (induction c es rule: cursor_after.induct) auto

lemma framed_TrailerD:
  assumes "framed c (es1 @ Trailer l zs # es2)"
  shows "l = kBlockSize - cursor_after c es1 \<and> 0 < l \<and> l < kHeaderSize \<and>
         zs = replicate (nat l) 0 \<and> (\<exists>t p s es3. es2 = Emit 0 t p s # es3)"
proof -
  from framed_appendD [OF assms] have f: "framed (cursor_after c es1) (Trailer l zs # es2)" .
  then have "es2 \<noteq> []" "framed 0 es2"
    by simp_all
  then obtain e es3 where es2: "es2 = e # es3"
    by (cases es2) auto
  have "\<exists>t p s. e = Emit 0 t p s"
    using \<open>framed 0 es2\<close> unfolding es2
    by (cases e) (auto simp: kBlockSize_def kHeaderSize_def)
  with f es2 show ?thesis
    by auto
qed

lemma AddRecord_body_trace:
  assumes body: "AddRecord_body crc w rest b = Some (s, w', rest')" and c: "0 \<le> block_offset w"
  shows "\<exists>es. history w' = history w @ es \<and> es \<noteq> [] \<and>
           (\<forall>c0. cursor_after c0 es = block_offset w') \<and>
           (\<forall>k. framed (block_offset w') k \<longrightarrow> framed (block_offset w) (es @ k))"
proof -
  note d = AddRecord_body_SomeD [OF body]
  let ?n = "min (length rest) (avail_at (block_offset w))"
  let ?es = "trailer_events (block_offset w) @
           [Emit (header_offset (block_offset w))
              (fragment_type b (length rest \<le> avail_at (block_offset w))) (take ?n rest) s]"
  have "framed (block_offset w) (?es @ k)" if "framed (block_offset w') k" for k
    using framed_pass [OF c d(1), of "take ?n rest" k] that d(3) by simp
  moreover have "cursor_after c0 ?es = block_offset w'" for c0
    unfolding cursor_after_pass d(3) by simp
  ultimately show ?thesis
    using d(4) by blast
qed

lemma AddRecord_loop_trace:
  assumes "AddRecord_loop crc w rest b = Some (s, w')"
  shows "0 \<le> block_offset w \<Longrightarrow>
         0 \<le> block_offset w' \<and> block_offset w' \<le> kBlockSize \<and>
         (\<exists>es. history w' = history w @ es \<and> es \<noteq> [] \<and>
            (\<forall>c0. cursor_after c0 es = block_offset w') \<and>
            (\<forall>k. framed (block_offset w') k \<longrightarrow> framed (block_offset w) (es @ k)))"
  using assms
proof (induction rule: AddRecord_loop_induct)
  case (last crc w rest b rest')
  from AddRecord_body_cursor [OF last(1,3)] AddRecord_body_trace [OF last(1,3)]
  show ?case by blast
next
  case (step crc w rest b s1 w1 rest1)
  from AddRecord_body_cursor [OF step(1,6)] have c1: "0 \<le> block_offset w1" by simp
  from step(5) [OF c1] obtain es1 where
    1: "0 \<le> block_offset w'" "block_offset w' \<le> kBlockSize" "history w' = history w1 @ es1"
       "\<forall>c0. cursor_after c0 es1 = block_offset w'"
       "\<forall>k. framed (block_offset w') k \<longrightarrow> framed (block_offset w1) (es1 @ k)"
    by blast
  from AddRecord_body_trace [OF step(1,6)] obtain es0 where
    0: "history w1 = history w @ es0" "es0 \<noteq> []"
       "\<forall>k. framed (block_offset w1) k \<longrightarrow> framed (block_offset w) (es0 @ k)"
    by blast
  have "history w' = history w @ (es0 @ es1)" "es0 @ es1 \<noteq> []"
    using 0 1 by simp_all
  moreover have "\<forall>k. framed (block_offset w') k \<longrightarrow> framed (block_offset w) ((es0 @ es1) @ k)"
    using 0(3) 1(5) by simp
  moreover have "\<forall>c0. cursor_after c0 (es0 @ es1) = block_offset w'"
    using 1(4) by (simp add: cursor_after_append)
  ultimately show ?case
    using 1(1,2) by blast
qed

lemma AddRecords_trace:
  assumes "0 \<le> block_offset w" "block_offset w \<le> kBlockSize"
  shows "\<exists>w' es. AddRecords crc w ps = Some w' \<and>
           0 \<le> block_offset w' \<and> block_offset w' \<le> kBlockSize \<and>
           history w' = history w @ es \<and>
           cursor_after (block_offset w) es = block_offset w' \<and>
           (\<forall>k. framed (block_offset w') k \<longrightarrow> framed (block_offset w) (es @ k))"
  using assms
proof (induction ps arbitrary: w)
  case Nil
  then show ?case by simp
next
  case (Cons p ps)
  from AddRecord_loop_Some_ex [OF Cons.prems] obtain s w1
    where run: "AddRecord crc w p = Some (s, w1)"
    unfolding AddRecord_def by blast
  from AddRecord_loop_trace [OF run [unfolded AddRecord_def] Cons.prems(1)] obtain es0 where
    0: "0 \<le> block_offset w1" "block_offset w1 \<le> kBlockSize" "history w1 = history w @ es0"
       "\<forall>c0. cursor_after c0 es0 = block_offset w1"
       "\<forall>k. framed (block_offset w1) k \<longrightarrow> framed (block_offset w) (es0 @ k)"
    by blast
  from Cons.IH [OF 0(1,2)] obtain w' es1 where
    1: "AddRecords crc w1 ps = Some w'" "0 \<le> block_offset w'" "block_offset w' \<le> kBlockSize"
       "history w' = history w1 @ es1" "cursor_after (block_offset w1) es1 = block_offset w'"
       "\<forall>k. framed (block_offset w') k \<longrightarrow> framed (block_offset w1) (es1 @ k)"
    by blast
  have "AddRecords crc w (p # ps) = Some w'"
    using run 1(1) by simp
  moreover have "history w' = history w @ (es0 @ es1)"
    using 0(3) 1(4) by simp
  moreover have "cursor_after (block_offset w) (es0 @ es1) = block_offset w'"
    using 0(4) 1(5) by (simp add: cursor_after_append)
  moreover have "\<forall>k. framed (block_offset w') k \<longrightarrow> framed (block_offset w) ((es0 @ es1) @ k)"
    using 0(5) 1(6) by simp
  ultimately show ?case
    using 1(2,3) by blast
qed

lemma constructed_cursor:
  assumes "w = Writer_new crc d \<or> w = Writer_resume crc d dest_length"
  shows "0 \<le> block_offset w" "block_offset w < kBlockSize" "history w = []"
  using assms by (auto simp: Writer_new_def Writer_resume_def kBlockSize_def)

lemma framed_prefix_cursor:
  "framed c (es1 @ es2) \<Longrightarrow> 0 \<le> c \<Longrightarrow> c \<le> kBlockSize \<Longrightarrow>
     0 \<le> cursor_after c es1 \<and> cursor_after c es1 \<le> kBlockSize"
  by (induction c es1 rule: cursor_after.induct) (simp_all add: kBlockSize_def kHeaderSize_def)

lemma ok_iff: "ok s \<longleftrightarrow> s = OK"
  by (cases s) simp_all

lemma AddRecord_body_events:
  assumes "AddRecord_body crc w rest b = Some (s, w', rest')"
  shows "\<exists>es. history w' = history w @ es \<and>
           emitted_types es = [fragment_type b (length rest \<le> avail_at (block_offset w))] \<and>
           emitted_payloads es = [take (min (length rest) (avail_at (block_offset w))) rest] \<and>
           emitted_statuses es = [s]"
  using AddRecord_body_SomeD(4) [OF assms] by simp

lemma AddRecord_body_rest:
  assumes "AddRecord_body crc w rest b = Some (s, w', rest')"
  shows "rest' = [] \<longleftrightarrow> length rest \<le> avail_at (block_offset w)"
  using AddRecord_body_SomeD(2) [OF assms] by auto

lemma AddRecord_loop_tail:
  assumes "AddRecord_loop crc w rest b = Some (s, w')"
  shows "\<not> b \<Longrightarrow> ok s \<Longrightarrow>
         \<exists>es k. history w' = history w @ es \<and>
           emitted_types es = replicate k kMiddleType @ [kLastType] \<and>
           concat (emitted_payloads es) = rest"
  using assms
proof (induction rule: AddRecord_loop_induct)
  case (last crc w rest b rest')
  from last(2,4) have "rest' = []" by simp
  with AddRecord_body_rest [OF last(1)] have le: "length rest \<le> avail_at (block_offset w)"
    by simp
  from AddRecord_body_events [OF last(1)] obtain es where
    "history w' = history w @ es" "emitted_types es = [kLastType]" "emitted_payloads es = [rest]"
    using le last(3) by (auto simp: fragment_type_def)
  then have "history w' = history w @ es \<and> emitted_types es = replicate 0 kMiddleType @ [kLastType]
      \<and> concat (emitted_payloads es) = rest"
    by simp
  then show ?case by blast
next
  case (step crc w rest b s1 w1 rest1)
  from AddRecord_body_rest [OF step(1)] step(3)
  have gt: "\<not> length rest \<le> avail_at (block_offset w)"
    by simp
  from AddRecord_body_events [OF step(1)] obtain es0 where
    0: "history w1 = history w @ es0" "emitted_types es0 = [kMiddleType]"
       "emitted_payloads es0 = [take (avail_at (block_offset w)) rest]"
    using gt step(6) by (auto simp: fragment_type_def min_def)
  from step(5) [OF _ step(7)] obtain es1 k where
    1: "history w' = history w1 @ es1" "emitted_types es1 = replicate k kMiddleType @ [kLastType]"
       "concat (emitted_payloads es1) = rest1"
    by auto
  have r1: "rest1 = drop (avail_at (block_offset w)) rest"
    using AddRecord_body_SomeD(2) [OF step(1)] gt by (simp add: min_def)
  have "history w' = history w @ (es0 @ es1) \<and>
        emitted_types (es0 @ es1) = replicate (Suc k) kMiddleType @ [kLastType] \<and>
        concat (emitted_payloads (es0 @ es1)) = rest"
    using 0 1 r1 by simp
  then show ?case by blast
qed

lemma AddRecord_loop_statuses:
  assumes "AddRecord_loop crc w rest b = Some (s, w')"
  shows "\<exists>es k m. history w' = history w @ es \<and>
           emitted_statuses es = replicate k OK @ [s] \<and>
           concat (emitted_payloads es) = take m rest \<and>
           (ok s \<longrightarrow> concat (emitted_payloads es) = rest)"
  using assms
proof (induction rule: AddRecord_loop_induct)
  case (last crc w rest b rest')
  let ?n = "min (length rest) (avail_at (block_offset w))"
  from AddRecord_body_events [OF last(1)] obtain es where
    es: "history w' = history w @ es" "emitted_payloads es = [take ?n rest]"
      "emitted_statuses es = [s]"
    by auto
  have "ok s \<longrightarrow> take ?n rest = rest"
    using last(2) AddRecord_body_rest [OF last(1)] by auto
  with es have "history w' = history w @ es \<and> emitted_statuses es = replicate 0 OK @ [s] \<and>
      concat (emitted_payloads es) = take ?n rest \<and> (ok s \<longrightarrow> concat (emitted_payloads es) = rest)"
    by simp
  then show ?case by blast
next
  case (step crc w rest b s1 w1 rest1)
  let ?n = "min (length rest) (avail_at (block_offset w))"
  from AddRecord_body_events [OF step(1)] obtain es0 where
    0: "history w1 = history w @ es0" "emitted_payloads es0 = [take ?n rest]"
       "emitted_statuses es0 = [OK]"
    using step(2) by (auto simp: ok_iff)
  from step(5) obtain es1 k m where
    1: "history w' = history w1 @ es1" "emitted_statuses es1 = replicate k OK @ [s]"
       "concat (emitted_payloads es1) = take m rest1" "ok s \<longrightarrow> concat (emitted_payloads es1) = rest1"
    by blast
  have r1: "rest1 = drop ?n rest"
    using AddRecord_body_SomeD(2) [OF step(1)] by simp
  have "history w' = history w @ (es0 @ es1) \<and>
        emitted_statuses (es0 @ es1) = replicate (Suc k) OK @ [s] \<and>
        concat (emitted_payloads (es0 @ es1)) = take (?n + m) rest \<and>
        (ok s \<longrightarrow> concat (emitted_payloads (es0 @ es1)) = rest)"
    using 0 1 unfolding r1 by (simp add: take_add)
  then show ?case by blast
qed

lemma EmitPhysicalRecord_statuses:
  assumes "EmitPhysicalRecord crc w t payload = Some (s, w')"
  defines "h1 \<equiv> calls (dest w) @ [AppendCall (header_of crc (type_crc w) t payload)]"
  shows "(\<not> ok (respond (dest w) h1) \<and> s = respond (dest w) h1 \<and> calls (dest w') = h1) \<or>
         (ok (respond (dest w) h1) \<and> \<not> ok (respond (dest w) (h1 @ [AppendCall payload])) \<and>
            s = respond (dest w) (h1 @ [AppendCall payload]) \<and>
            calls (dest w') = h1 @ [AppendCall payload]) \<or>
         (ok (respond (dest w) h1) \<and> ok (respond (dest w) (h1 @ [AppendCall payload])) \<and>
            s = respond (dest w) (h1 @ [AppendCall payload, FlushCall]) \<and>
            calls (dest w') = h1 @ [AppendCall payload, FlushCall])"
  using assms(1) unfolding h1_def
  by (auto simp: EmitPhysicalRecord_def Let_def Append_def Flush_def header_of_def split: if_splits)

lemma AddRecord_single:
  assumes "0 \<le> block_offset w" "block_offset w \<le> kBlockSize"
    and "length p \<le> avail_at (block_offset w)"
  shows "\<exists>s w'. AddRecord crc w p = Some (s, w') \<and> AddRecord_body crc w p True = Some (s, w', [])"
proof -
  from AddRecord_body_Some_ex [OF assms(1,2), of crc p True] assms(3)
  obtain s w' where "AddRecord_body crc w p True = Some (s, w', [])"
    by auto
  then show ?thesis
    unfolding AddRecord_def by (subst AddRecord_loop.simps) simp
qed

lemma AddRecord_loop_boundary:
  assumes "AddRecord_loop crc w rest b = Some (s, w')"
  shows "block_offset w = kBlockSize \<Longrightarrow>
         \<exists>es. history w' = history w @ es \<and> list_all at_block_start es"
  using assms
proof (induction rule: AddRecord_loop_induct)
  case (last crc w rest b rest')
  from AddRecord_body_SomeD(4) [OF last(1)] last(3) show ?case
    by (simp add: header_offset_def trailer_events_def kBlockSize_def kHeaderSize_def)
next
  case (step crc w rest b s1 w1 rest1)
  note d = AddRecord_body_SomeD [OF step(1)]
  have ho: "header_offset (block_offset w) = 0" and te: "trailer_events (block_offset w) = ([] :: 'a event list)"
    using step(6) by (simp_all add: header_offset_def trailer_events_def kBlockSize_def kHeaderSize_def)
  have av: "int (avail_at (block_offset w)) = kBlockSize - kHeaderSize"
    by (simp add: avail_at_def ho kBlockSize_def kHeaderSize_def)
  from AddRecord_body_rest [OF step(1)] step(3)
  have "min (length rest) (avail_at (block_offset w)) = avail_at (block_offset w)"
    by simp
  with d(3) have "block_offset w1 = kBlockSize"
    by (simp add: ho av)
  from step(5) [OF this] obtain es1 where
    1: "history w' = history w1 @ es1" "list_all at_block_start es1"
    by blast
  from d(4) obtain e0 where 0: "history w1 = history w @ [e0]" "at_block_start e0"
    by (simp add: ho te)
  have "history w' = history w @ (e0 # es1) \<and> list_all at_block_start (e0 # es1)"
    using 0 1 by simp
  then show ?case by blast
qed

lemma sink_calls_append:
  "sink_calls crc tab r h (xs @ ys) = sink_calls crc tab r (sink_calls crc tab r h xs) ys"
  by (induction crc tab r h xs rule: sink_calls.induct) simp_all

lemma sink_calls_extends: "\<exists>more. sink_calls crc tab r h es = h @ more"
proof (induction crc tab r h es rule: sink_calls.induct)
  case (1 crc tab r h)
  then show ?case by simp
next
  case (2 crc tab r h l zs es)
  then show ?case by auto
next
  case (3 crc tab r h off t p s es)
  then show ?case by auto
qed

lemma emission_calls_header:
  "\<exists>more. emission_calls r h hdr p = AppendCall hdr # more"
  by (simp add: emission_calls_def)

lemma EmitPhysicalRecord_sink:
  assumes "EmitPhysicalRecord crc w t p = Some (s, w')"
  shows "calls (dest w') = calls (dest w) @
           emission_calls (respond (dest w)) (calls (dest w)) (header_of crc (type_crc w) t p) p"
  using EmitPhysicalRecord_statuses [OF assms]
  by (auto simp: emission_calls_def)

lemma AddRecord_body_emit:
  assumes "AddRecord_body crc w rest b = Some (s, w', rest')"
  shows "EmitPhysicalRecord crc (pre_emit w)
           (fragment_type b (length rest \<le> avail_at (block_offset w)))
           (take (min (length rest) (avail_at (block_offset w))) rest) = Some (s, w')"
  using assms by (auto simp: AddRecord_body_eq split: if_splits option.splits)

lemma pre_emit_sink:
  "calls (dest (pre_emit w)) = sink_calls crc tab r (calls (dest w)) (trailer_events (block_offset w))"
  by (simp add: pre_emit_calls trailer_events_def)

lemma AddRecord_body_in_step:
  assumes body: "AddRecord_body crc w rest b = Some (s, w', rest')"
    and tab: "type_crc w = tab" and r: "respond (dest w) = r"
    and sync: "calls (dest w) = sink_calls crc tab r h0 (history w)"
  shows "type_crc w' = tab" and "respond (dest w') = r"
    and "calls (dest w') = sink_calls crc tab r h0 (history w')"
proof -
  note d = AddRecord_body_SomeD [OF body]
  show "type_crc w' = tab" "respond (dest w') = r"
    using d(5,6) tab r by simp_all
  let ?t = "fragment_type b (length rest \<le> avail_at (block_offset w))"
  let ?q = "take (min (length rest) (avail_at (block_offset w))) rest"
  let ?h1 = "calls (dest (pre_emit w))"
  have "calls (dest w') = ?h1 @ emission_calls r ?h1 (header_of crc tab ?t ?q) ?q"
    using EmitPhysicalRecord_sink [OF AddRecord_body_emit [OF body]]
    by (simp add: pre_emit_simps tab r)
  also have "\<dots> = sink_calls crc tab r ?h1 [Emit (header_offset (block_offset w)) ?t ?q s]"
    by simp
  also have "\<dots> = sink_calls crc tab r (calls (dest w))
       (trailer_events (block_offset w) @ [Emit (header_offset (block_offset w)) ?t ?q s])"
    unfolding sink_calls_append pre_emit_sink [of w crc tab r] ..
  also have "\<dots> = sink_calls crc tab r h0 (history w')"
    unfolding d(4) sync sink_calls_append [symmetric] by simp
  finally show "calls (dest w') = sink_calls crc tab r h0 (history w')" .
qed

lemma AddRecord_loop_induct_crc [consumes 1, case_names last step]:
  assumes run: "AddRecord_loop crc w rest b = Some (s, w')"
    and last: "\<And>w rest b rest'. AddRecord_body crc w rest b = Some (s, w', rest') \<Longrightarrow>
                \<not> (ok s \<and> rest' \<noteq> []) \<Longrightarrow> P w rest b"
    and step: "\<And>w rest b s1 w1 rest1. AddRecord_body crc w rest b = Some (s1, w1, rest1) \<Longrightarrow>
                ok s1 \<Longrightarrow> rest1 \<noteq> [] \<Longrightarrow> AddRecord_loop crc w1 rest1 False = Some (s, w') \<Longrightarrow>
                P w1 rest1 False \<Longrightarrow> P w rest b"
  shows "P w rest b"
proof -
  have "c = crc \<Longrightarrow> AddRecord_loop c w rest b = Some (s, w') \<Longrightarrow> P w rest b" for c
  proof (induction c w rest b rule: AddRecord_loop.induct)
    case (1 c w rest b)
    from "1.prems"(2) show ?case
    proof (cases rule: AddRecord_loop_cases)
      case (last rest')
      then show ?thesis using assms(2) "1.prems"(1) by simp
    next
      case (step s1 w1 rest1)
      have "P w1 rest1 False"
        using "1.IH" [OF step(1) refl refl _ "1.prems"(1)] step(2,3,4) by simp
      with step show ?thesis using assms(3) "1.prems"(1) by simp
    qed
  qed
  with run show ?thesis by simp
qed

lemma AddRecord_loop_in_step:
  assumes "AddRecord_loop crc w rest b = Some (s, w')"
  shows "type_crc w = tab \<Longrightarrow> respond (dest w) = r \<Longrightarrow>
         calls (dest w) = sink_calls crc tab r h0 (history w) \<Longrightarrow>
         type_crc w' = tab \<and> respond (dest w') = r \<and>
         calls (dest w') = sink_calls crc tab r h0 (history w')"
  using assms
proof (induction rule: AddRecord_loop_induct_crc)
  case (last w rest b rest')
  from AddRecord_body_in_step [OF last(1,3,4,5)] show ?case by simp
next
  case (step w rest b s1 w1 rest1)
  from AddRecord_body_in_step [OF step(1,6,7,8)] step(5) show ?case by simp
qed

lemma AddRecords_in_step:
  "AddRecords crc w ps = Some w' \<Longrightarrow> type_crc w = tab \<Longrightarrow> respond (dest w) = r \<Longrightarrow>
     calls (dest w) = sink_calls crc tab r h0 (history w) \<Longrightarrow>
     type_crc w' = tab \<and> respond (dest w') = r \<and>
     calls (dest w') = sink_calls crc tab r h0 (history w')"
proof (induction ps arbitrary: w)
  case Nil
  then show ?case by simp
next
  case (Cons p ps)
  from Cons.prems(1) obtain s w1 where run: "AddRecord_loop crc w p True = Some (s, w1)"
    and rest: "AddRecords crc w1 ps = Some w'"
    by (auto simp: AddRecord_def split: option.splits)
  from AddRecord_loop_in_step [OF run Cons.prems(2,3,4)] Cons.IH [OF rest]
  show ?case by simp
qed

lemma constructed_in_step:
  assumes "w = Writer_new crc d \<or> w = Writer_resume crc d dest_length"
  shows "type_crc w = InitTypeCrc crc" "dest w = d"
    "calls (dest w) = sink_calls crc (InitTypeCrc crc) (respond d) (calls d) (history w)"
  using assms by (auto simp: Writer_new_def Writer_resume_def)

lemma reached_from_constructor:
  assumes constructed: "w0 = Writer_new crc d \<or> w0 = Writer_resume crc d dest_length"
    and reached: "AddRecords crc w0 ps = Some w"
  shows "type_crc w = InitTypeCrc crc" and "respond (dest w) = respond d"
    and "calls (dest w) = sink_calls crc (InitTypeCrc crc) (respond d) (calls d) (history w)"
    and "framed (block_offset w0) (history w)"
    and "0 \<le> block_offset w" and "block_offset w \<le> kBlockSize"
proof -
  note c = constructed_cursor [OF constructed] and i = constructed_in_step [OF constructed]
  have rd: "respond (dest w0) = respond d"
    by (simp add: i(2))
  from AddRecords_in_step [OF reached i(1) rd i(3)]
  show "type_crc w = InitTypeCrc crc" "respond (dest w) = respond d"
    "calls (dest w) = sink_calls crc (InitTypeCrc crc) (respond d) (calls d) (history w)"
    by simp_all
  from c(2) have le: "block_offset w0 \<le> kBlockSize" by simp
  from AddRecords_trace [OF c(1) le, of crc ps] reached
  have k: "\<forall>k. framed (block_offset w) k \<longrightarrow> framed (block_offset w0) (history w @ k)"
    and b: "0 \<le> block_offset w" "block_offset w \<le> kBlockSize"
    by (auto simp: c(3))
  from b show "0 \<le> block_offset w" "block_offset w \<le> kBlockSize" .
  from k show "framed (block_offset w0) (history w)"
    by (auto dest: spec [of _ "[]"])
qed

lemma sink_calls_at_emission:
  "\<exists>more. sink_calls crc tab r h (es1 @ Emit off t p s # es2) =
     sink_calls crc tab r h es1 @ AppendCall (header_of crc tab t p) # more"
proof -
  let ?h1 = "sink_calls crc tab r h es1"
  obtain m1 where m1: "emission_calls r ?h1 (header_of crc tab t p) p = AppendCall (header_of crc tab t p) # m1"
    using emission_calls_header by blast
  obtain m2 where "sink_calls crc tab r (?h1 @ AppendCall (header_of crc tab t p) # m1) es2
      = (?h1 @ AppendCall (header_of crc tab t p) # m1) @ m2"
    using sink_calls_extends by blast
  then show ?thesis
    by (simp add: sink_calls_append m1)
qed

lemma sink_calls_at_trailer:
  "\<exists>more. sink_calls crc tab r h (es1 @ Trailer l zs # Emit off t p s # es2) =
     sink_calls crc tab r h es1 @ AppendCall zs # AppendCall (header_of crc tab t p) # more"
proof -
  from sink_calls_at_emission [of crc tab r h "es1 @ [Trailer l zs]" off t p s es2]
  show ?thesis
    by (simp add: sink_calls_append)
qed

section \<open>The claims\<close>

subsection \<open>C1: the header of a physical record\<close>

text \<open>
  C1. Let \<open>w\<close> be a writer that either constructor made and any sequence of
  \<^verbatim>\<open>AddRecord\<close> calls has used, on any sink. Its table is still the one
  \<^verbatim>\<open>InitTypeCrc\<close> built at construction. A call of \<^verbatim>\<open>EmitPhysicalRecord\<close> on it
  that meets the two assertions first asks the sink to append a header of 7 bytes:
  bytes 0-3 are the little-endian encoding of \<open>Mask (Extend (Value [type byte]) payload)\<close>,
  the checksum of the single type byte extended over exactly the payload and then
  masked; bytes 4-5 are the length, low byte first; byte 6 is the type tag. And for
  every call of \<^verbatim>\<open>EmitPhysicalRecord\<close> that the run itself made (every emission of the
  history), the sink received such a header for the type and the payload of that call,
  right after the calls of the events before it.
\<close>

theorem EmitPhysicalRecord_header:
  assumes constructed: "w0 = Writer_new crc d \<or> w0 = Writer_resume crc d dest_length"
    and reached: "AddRecords crc w0 ps = Some w"
  shows "type_crc w = InitTypeCrc crc \<and>
         (length payload \<le> 0xffff \<and> block_offset w + kHeaderSize + int (length payload) \<le> kBlockSize \<longrightarrow>
           (\<exists>s w' hdr more.
              EmitPhysicalRecord crc w t payload = Some (s, w') \<and>
              calls (dest w') = calls (dest w) @ AppendCall hdr # more \<and>
              length hdr = 7 \<and>
              take 4 hdr = EncodeFixed32 (Mask crc (Extend crc (Value crc [of_nat (type_code t)]) payload)) \<and>
              le32 hdr = unat (Mask crc (Extend crc (Value crc [of_nat (type_code t)]) payload)) \<and>
              unat (hdr ! 4) = length payload mod 256 \<and>
              unat (hdr ! 5) = length payload div 256 \<and>
              hdr ! 6 = of_nat (type_code t))) \<and>
         (\<forall>es1 off t' p s es2. history w = es1 @ Emit off t' p s # es2 \<longrightarrow>
           (\<exists>hdr more.
              calls (dest w) =
                sink_calls crc (InitTypeCrc crc) (respond d) (calls d) es1 @ AppendCall hdr # more \<and>
              length hdr = 7 \<and>
              take 4 hdr = EncodeFixed32 (Mask crc (Extend crc (Value crc [of_nat (type_code t')]) p)) \<and>
              le32 hdr = unat (Mask crc (Extend crc (Value crc [of_nat (type_code t')]) p)) \<and>
              unat (hdr ! 4) = length p mod 256 \<and>
              unat (hdr ! 5) = length p div 256 \<and>
              hdr ! 6 = of_nat (type_code t')))"
proof (intro conjI impI allI)
  note r = reached_from_constructor [OF constructed reached]
  show table: "type_crc w = InitTypeCrc crc" by (rule r(1))
  have fields: "length (header_of crc (InitTypeCrc crc) u q) = 7 \<and>
      take 4 (header_of crc (InitTypeCrc crc) u q) =
        EncodeFixed32 (Mask crc (Extend crc (Value crc [of_nat (type_code u)]) q)) \<and>
      le32 (header_of crc (InitTypeCrc crc) u q) =
        unat (Mask crc (Extend crc (Value crc [of_nat (type_code u)]) q)) \<and>
      unat (header_of crc (InitTypeCrc crc) u q ! 4) = length q mod 256 \<and>
      unat (header_of crc (InitTypeCrc crc) u q ! 5) = length q div 256 \<and>
      header_of crc (InitTypeCrc crc) u q ! 6 = of_nat (type_code u)"
    if "length q \<le> 65535" for u q
    using that by (simp add: header_of_fields InitTypeCrc_nth)
  {
    assume pre: "length payload \<le> 0xffff \<and>
        block_offset w + kHeaderSize + int (length payload) \<le> kBlockSize"
    then obtain s w' where e: "EmitPhysicalRecord crc w t payload = Some (s, w')"
      using EmitPhysicalRecord_Some_ex [of payload w crc t] by auto
    from EmitPhysicalRecord_calls [OF e] obtain more
      where c: "calls (dest w') = calls (dest w) @ AppendCall (header_of crc (InitTypeCrc crc) t payload) # more"
      unfolding table by blast
    from pre have "length payload \<le> 65535" by simp
    from fields [OF this, of t] e c
    show "\<exists>s w' hdr more.
              EmitPhysicalRecord crc w t payload = Some (s, w') \<and>
              calls (dest w') = calls (dest w) @ AppendCall hdr # more \<and>
              length hdr = 7 \<and>
              take 4 hdr = EncodeFixed32 (Mask crc (Extend crc (Value crc [of_nat (type_code t)]) payload)) \<and>
              le32 hdr = unat (Mask crc (Extend crc (Value crc [of_nat (type_code t)]) payload)) \<and>
              unat (hdr ! 4) = length payload mod 256 \<and>
              unat (hdr ! 5) = length payload div 256 \<and>
              hdr ! 6 = of_nat (type_code t)"
      by blast
  }
  {
    fix es1 off t' p s es2
    assume h: "history w = es1 @ Emit off t' p s # es2"
    from framed_EmitD [OF r(4), of off t' p s] h have len: "length p \<le> 65535"
      by simp
    from sink_calls_at_emission [of crc "InitTypeCrc crc" "respond d" "calls d" es1 off t' p s es2]
    obtain more where "calls (dest w) =
        sink_calls crc (InitTypeCrc crc) (respond d) (calls d) es1 @
          AppendCall (header_of crc (InitTypeCrc crc) t' p) # more"
      unfolding r(3) h by blast
    with fields [OF len, of t']
    show "\<exists>hdr more.
              calls (dest w) =
                sink_calls crc (InitTypeCrc crc) (respond d) (calls d) es1 @ AppendCall hdr # more \<and>
              length hdr = 7 \<and>
              take 4 hdr = EncodeFixed32 (Mask crc (Extend crc (Value crc [of_nat (type_code t')]) p)) \<and>
              le32 hdr = unat (Mask crc (Extend crc (Value crc [of_nat (type_code t')]) p)) \<and>
              unat (hdr ! 4) = length p mod 256 \<and>
              unat (hdr ! 5) = length p div 256 \<and>
              hdr ! 6 = of_nat (type_code t')"
      by blast
  }
qed

text \<open>
  The witness resumes at offset 100 of a block, writes a record of three bytes (a
  \<open>Full\<close> record, type tag 1) and then emits a \<open>First\<close> record of 300 bytes:
  \<open>300 = 44 + 256 * 1\<close>, and the type tag of \<open>First\<close> is 2.
\<close>

theorem EmitPhysicalRecord_header_witness:
  "\<forall>crc. \<exists>w s w' hdr more hdr0 more0.
     AddRecords crc (Writer_resume crc sink_ok 100) [[1, 2, 3]] = Some w \<and>
     type_crc w = InitTypeCrc crc \<and>
     EmitPhysicalRecord crc w kFirstType (replicate 300 5) = Some (s, w') \<and>
     calls (dest w') = calls (dest w) @ AppendCall hdr # more \<and>
     length hdr = 7 \<and>
     take 4 hdr = EncodeFixed32 (Mask crc (Extend crc (Value crc [2]) (replicate 300 5))) \<and>
     unat (hdr ! 4) = 44 \<and> unat (hdr ! 5) = 1 \<and> hdr ! 6 = 2 \<and>
     history w = [Emit 100 kFullType [1, 2, 3] OK] \<and>
     calls (dest w) = AppendCall hdr0 # more0 \<and>
     take 4 hdr0 = EncodeFixed32 (Mask crc (Extend crc (Value crc [1]) [1, 2, 3])) \<and>
     unat (hdr0 ! 4) = 3 \<and> unat (hdr0 ! 5) = 0 \<and> hdr0 ! 6 = 1"
proof
  fix crc
  let ?w0 = "Writer_resume crc sink_ok 100"
  have "\<exists>w. AddRecords crc ?w0 [[1, 2, 3]] = Some w \<and> block_offset w = 110 \<and>
      history w = [Emit 100 kFullType [1, 2, 3] OK]"
    by (simp add: AddRecord_def AddRecord_loop.simps AddRecord_body_def EmitPhysicalRecord_def
        Let_def Append_def Flush_def Writer_resume_def sink_ok_def kBlockSize_def kHeaderSize_def)
  then obtain w where reached: "AddRecords crc ?w0 [[1, 2, 3]] = Some w"
    and c: "block_offset w = 110" and h: "history w = [Emit 100 kFullType [1, 2, 3] OK]"
    by blast
  have constructed: "?w0 = Writer_new crc sink_ok \<or> ?w0 = Writer_resume crc sink_ok 100"
    by simp
  note inst = EmitPhysicalRecord_header [OF constructed reached, of "replicate 300 5" kFirstType]
  have pre: "length (replicate 300 (5 :: byte)) \<le> 0xffff \<and>
      block_offset w + kHeaderSize + int (length (replicate 300 (5 :: byte))) \<le> kBlockSize"
    by (simp add: c kBlockSize_def kHeaderSize_def)
  from inst have tab: "type_crc w = InitTypeCrc crc"
    by (rule conjunct1)
  from inst [THEN conjunct2, THEN conjunct1, rule_format, OF pre] obtain s w' hdr more where a:
    "EmitPhysicalRecord crc w kFirstType (replicate 300 5) = Some (s, w')"
    "calls (dest w') = calls (dest w) @ AppendCall hdr # more"
    "length hdr = 7"
    "take 4 hdr = EncodeFixed32 (Mask crc (Extend crc (Value crc [of_nat (type_code kFirstType)]) (replicate 300 5)))"
    "unat (hdr ! 4) = length (replicate 300 (5 :: byte)) mod 256"
    "unat (hdr ! 5) = length (replicate 300 (5 :: byte)) div 256"
    "hdr ! 6 = of_nat (type_code kFirstType)"
    by blast
  from inst [THEN conjunct2, THEN conjunct2, rule_format, of "[]" 100 kFullType "[1, 2, 3]" OK "[]"] h
  obtain hdr0 more0 where b:
    "calls (dest w) = sink_calls crc (InitTypeCrc crc) (respond sink_ok) (calls sink_ok) [] @ AppendCall hdr0 # more0"
    "take 4 hdr0 = EncodeFixed32 (Mask crc (Extend crc (Value crc [of_nat (type_code kFullType)]) [1, 2, 3]))"
    "unat (hdr0 ! 4) = length [1, 2, 3 :: byte] mod 256"
    "unat (hdr0 ! 5) = length [1, 2, 3 :: byte] div 256"
    "hdr0 ! 6 = of_nat (type_code kFullType)"
    by auto
  have a': "take 4 hdr = EncodeFixed32 (Mask crc (Extend crc (Value crc [2]) (replicate 300 5)))"
    "unat (hdr ! 4) = 44" "unat (hdr ! 5) = 1" "hdr ! 6 = 2"
    using a(4-7) by simp_all
  have b': "calls (dest w) = AppendCall hdr0 # more0"
    "take 4 hdr0 = EncodeFixed32 (Mask crc (Extend crc (Value crc [1]) [1, 2, 3]))"
    "unat (hdr0 ! 4) = 3" "unat (hdr0 ! 5) = 0" "hdr0 ! 6 = 1"
    using b by (simp_all add: sink_ok_def)
  show "\<exists>w s w' hdr more hdr0 more0.
     AddRecords crc ?w0 [[1, 2, 3]] = Some w \<and>
     type_crc w = InitTypeCrc crc \<and>
     EmitPhysicalRecord crc w kFirstType (replicate 300 5) = Some (s, w') \<and>
     calls (dest w') = calls (dest w) @ AppendCall hdr # more \<and>
     length hdr = 7 \<and>
     take 4 hdr = EncodeFixed32 (Mask crc (Extend crc (Value crc [2]) (replicate 300 5))) \<and>
     unat (hdr ! 4) = 44 \<and> unat (hdr ! 5) = 1 \<and> hdr ! 6 = 2 \<and>
     history w = [Emit 100 kFullType [1, 2, 3] OK] \<and>
     calls (dest w) = AppendCall hdr0 # more0 \<and>
     take 4 hdr0 = EncodeFixed32 (Mask crc (Extend crc (Value crc [1]) [1, 2, 3])) \<and>
     unat (hdr0 ! 4) = 3 \<and> unat (hdr0 ! 5) = 0 \<and> hdr0 ! 6 = 1"
    by (intro exI conjI) (rule reached tab a(1-3) a' h b')+
qed

subsection \<open>C2: no header straddles a block boundary\<close>

text \<open>
  C2. For a writer made by either constructor and every sequence of \<^verbatim>\<open>AddRecord\<close>
  calls, on any sink: no assertion fails; the history is framed from the initial
  cursor on; and the calls the sink has received are exactly those of the history, in
  its order. In particular no header starts at an offset \<open>off\<close> with
  \<open>kBlockSize - off < kHeaderSize\<close>. And every trailer was written when
  \<open>0 < leftover < kHeaderSize\<close> bytes were left after the events before it, consists
  of exactly \<open>leftover\<close> zero bytes, and is followed by a physical record at offset 0;
  the sink received, right after the calls of the events before the trailer, one
  \<open>Append\<close> of those zero bytes and next the \<open>Append\<close> of the header of that record.
\<close>

theorem headers_never_straddle_blocks:
  assumes "w = Writer_new crc d \<or> w = Writer_resume crc d dest_length"
  shows "\<exists>w'. AddRecords crc w ps = Some w' \<and>
           framed (block_offset w) (history w') \<and>
           calls (dest w') = sink_calls crc (InitTypeCrc crc) (respond d) (calls d) (history w') \<and>
           (\<forall>off t p s. Emit off t p s \<in> set (history w') \<longrightarrow> \<not> kBlockSize - off < kHeaderSize) \<and>
           (\<forall>es1 l zs es2. history w' = es1 @ Trailer l zs # es2 \<longrightarrow>
              l = kBlockSize - cursor_after (block_offset w) es1 \<and> 0 < l \<and> l < kHeaderSize \<and>
              zs = replicate (nat l) 0 \<and>
              (\<exists>t p s es3 more. es2 = Emit 0 t p s # es3 \<and>
                 calls (dest w') =
                   sink_calls crc (InitTypeCrc crc) (respond d) (calls d) es1 @
                     AppendCall zs # AppendCall (header_of crc (InitTypeCrc crc) t p) # more))"
proof -
  note c = constructed_cursor [OF assms]
  from c(2) have le: "block_offset w \<le> kBlockSize" by simp
  from AddRecords_trace [OF c(1) le, of crc ps] obtain w' where
    run: "AddRecords crc w ps = Some w'"
    by blast
  note r = reached_from_constructor [OF assms run]
  note fr = r(4)
  have E: "\<forall>off t p s. Emit off t p s \<in> set (history w') \<longrightarrow> \<not> kBlockSize - off < kHeaderSize"
  proof (intro allI impI)
    fix off t p s assume "Emit off t p s \<in> set (history w')"
    from framed_EmitD [OF fr this] show "\<not> kBlockSize - off < kHeaderSize"
      by simp
  qed
  have T: "\<forall>es1 l zs es2. history w' = es1 @ Trailer l zs # es2 \<longrightarrow>
              l = kBlockSize - cursor_after (block_offset w) es1 \<and> 0 < l \<and> l < kHeaderSize \<and>
              zs = replicate (nat l) 0 \<and>
              (\<exists>t p s es3 more. es2 = Emit 0 t p s # es3 \<and>
                 calls (dest w') =
                   sink_calls crc (InitTypeCrc crc) (respond d) (calls d) es1 @
                     AppendCall zs # AppendCall (header_of crc (InitTypeCrc crc) t p) # more)"
  proof (intro allI impI)
    fix es1 l zs es2 assume h: "history w' = es1 @ Trailer l zs # es2"
    from fr have "framed (block_offset w) (es1 @ Trailer l zs # es2)"
      by (simp only: h)
    from framed_TrailerD [OF this]
    have t: "l = kBlockSize - cursor_after (block_offset w) es1" "0 < l"
      "l < kHeaderSize" "zs = replicate (nat l) 0" and ex: "\<exists>t p s es3. es2 = Emit 0 t p s # es3"
      by simp_all
    from ex obtain t p s es3 where es2: "es2 = Emit 0 t p s # es3"
      by blast
    from sink_calls_at_trailer [of crc "InitTypeCrc crc" "respond d" "calls d" es1 l zs 0 t p s es3]
    obtain more where cs: "calls (dest w') =
        sink_calls crc (InitTypeCrc crc) (respond d) (calls d) es1 @
          AppendCall zs # AppendCall (header_of crc (InitTypeCrc crc) t p) # more"
      unfolding r(3) h es2 by blast
    have "\<exists>t p s es3 more. es2 = Emit 0 t p s # es3 \<and>
                 calls (dest w') =
                   sink_calls crc (InitTypeCrc crc) (respond d) (calls d) es1 @
                     AppendCall zs # AppendCall (header_of crc (InitTypeCrc crc) t p) # more"
      by (intro exI conjI) (rule es2 cs)+
    with t show "l = kBlockSize - cursor_after (block_offset w) es1 \<and> 0 < l \<and> l < kHeaderSize \<and>
              zs = replicate (nat l) 0 \<and>
              (\<exists>t p s es3 more. es2 = Emit 0 t p s # es3 \<and>
                 calls (dest w') =
                   sink_calls crc (InitTypeCrc crc) (respond d) (calls d) es1 @
                     AppendCall zs # AppendCall (header_of crc (InitTypeCrc crc) t p) # more)"
      by (intro conjI)
  qed
  show ?thesis
    by (rule exI [of _ w'], intro conjI) (rule run fr r(3) E T)+
qed

text \<open>
  The witness resumes at offset 32757 of a block and writes two records: the first
  ends 2 bytes before the block boundary, so the second call appends a trailer of two
  zero bytes and then the header of its record, at offset 0.
\<close>

theorem headers_never_straddle_blocks_witness:
  "\<forall>crc. \<exists>w'. AddRecords crc (Writer_resume crc sink_ok 32757) [[1, 2], [3]] = Some w' \<and>
     history w' = [Emit 32757 kFullType [1, 2] OK, Trailer 2 (replicate 2 0), Emit 0 kFullType [3] OK] \<and>
     framed 32757 (history w') \<and> block_offset w' = 8 \<and>
     calls (dest w') =
       [AppendCall (header_of crc (InitTypeCrc crc) kFullType [1, 2]), AppendCall [1, 2], FlushCall,
        AppendCall (replicate 2 0),
        AppendCall (header_of crc (InitTypeCrc crc) kFullType [3]), AppendCall [3], FlushCall]"
proof
  fix crc
  let ?w = "Writer_resume crc sink_ok 32757"
  have c0: "block_offset ?w = 32757"
    by (simp add: Writer_resume_def kBlockSize_def)
  have "\<exists>w'. AddRecords crc ?w [[1, 2], [3]] = Some w' \<and>
      history w' = [Emit 32757 kFullType [1, 2] OK, Trailer 2 (replicate 2 0), Emit 0 kFullType [3] OK]
      \<and> block_offset w' = 8"
    by (simp add: AddRecord_def AddRecord_loop.simps AddRecord_body_def EmitPhysicalRecord_def
        Let_def Append_def Flush_def Writer_resume_def sink_ok_def kBlockSize_def kHeaderSize_def)
  then obtain w' where run: "AddRecords crc ?w [[1, 2], [3]] = Some w'"
    and h: "history w' = [Emit 32757 kFullType [1, 2] OK, Trailer 2 (replicate 2 0), Emit 0 kFullType [3] OK]"
    and b: "block_offset w' = 8"
    by blast
  from headers_never_straddle_blocks [of ?w crc sink_ok 32757 "[[1, 2], [3]]"]
  obtain w'' where "AddRecords crc ?w [[1, 2], [3]] = Some w''"
    "framed (block_offset ?w) (history w'')"
    "calls (dest w'') = sink_calls crc (InitTypeCrc crc) (respond sink_ok) (calls sink_ok) (history w'')"
    by blast
  with run have f: "framed (block_offset ?w) (history w')"
    and cs: "calls (dest w') = sink_calls crc (InitTypeCrc crc) (respond sink_ok) (calls sink_ok) (history w')"
    by simp_all
  from f have "framed 32757 (history w')"
    by (simp only: c0)
  moreover have "calls (dest w') =
       [AppendCall (header_of crc (InitTypeCrc crc) kFullType [1, 2]), AppendCall [1, 2], FlushCall,
        AppendCall (replicate 2 0),
        AppendCall (header_of crc (InitTypeCrc crc) kFullType [3]), AppendCall [3], FlushCall]"
    unfolding cs h by (simp add: emission_calls_def sink_ok_def)
  ultimately
  show "\<exists>w'. AddRecords crc ?w [[1, 2], [3]] = Some w' \<and>
     history w' = [Emit 32757 kFullType [1, 2] OK, Trailer 2 (replicate 2 0), Emit 0 kFullType [3] OK] \<and>
     framed 32757 (history w') \<and> block_offset w' = 8 \<and>
     calls (dest w') =
       [AppendCall (header_of crc (InitTypeCrc crc) kFullType [1, 2]), AppendCall [1, 2], FlushCall,
        AppendCall (replicate 2 0),
        AppendCall (header_of crc (InitTypeCrc crc) kFullType [3]), AppendCall [3], FlushCall]"
    using run h b by blast
qed

subsection \<open>C3: the fragments of a split record\<close>

text \<open>
  C3, as stated: a payload longer than the payload space available in the current
  block is split, and a successful \<^verbatim>\<open>AddRecord\<close> emits \<open>First\<close>, \<open>Middle\<close>s and
  \<open>Last\<close>. This fails where fewer than \<open>kHeaderSize\<close> bytes are left in the current
  block: for a writer resumed on a file of 32765 bytes the current block has no
  payload space (\<open>32768 - 32765 - 7 < 0\<close>), a payload of one byte exceeds it, and the
  call appends a trailer of 3 zero bytes and emits one \<open>Full\<close> record in the next
  block.
\<close>

theorem split_record_fragments_counterexample:
  "kBlockSize - block_offset (Writer_resume crc_sum sink_ok 32765) - kHeaderSize < int (length [9 :: byte]) \<and>
   outcome (AddRecord crc_sum (Writer_resume crc_sum sink_ok 32765) [9]) =
     Some (OK, 8, [Trailer 3 [0, 0, 0], Emit 0 kFullType [9] OK]) \<and>
   emitted_types [Trailer 3 [0, 0, 0], Emit 0 kFullType [9] (OK :: unit Status)] = [kFullType]"
  by (simp add: outcome_def AddRecord_def AddRecord_loop.simps AddRecord_body_def
      EmitPhysicalRecord_def Let_def Append_def Flush_def Writer_resume_def sink_ok_def
      kBlockSize_def kHeaderSize_def numeral_3_eq_3)

text \<open>
  C3, amended. Let the payload \<open>p\<close> be longer than \<^verbatim>\<open>avail\<close>, the payload space of the
  block in which the first header is placed: the current block when at least
  \<open>kHeaderSize\<close> bytes are left in it, and a new block otherwise (the source computes
  \<^verbatim>\<open>avail\<close> after the block switch). If \<^verbatim>\<open>AddRecord(p)\<close> returns success, the
  physical records it emitted have the types \<open>First\<close>, then zero or more \<open>Middle\<close>,
  then \<open>Last\<close>, and their payloads, concatenated in emission order, are \<open>p\<close>.
\<close>

theorem split_record_fragments:
  assumes long: "avail_at (block_offset w) < length p"
    and run: "AddRecord crc w p = Some (s, w')"
    and success: "ok s"
  shows "\<exists>es k. history w' = history w @ es \<and>
           emitted_types es = kFirstType # replicate k kMiddleType @ [kLastType] \<and>
           concat (emitted_payloads es) = p"
  using run [unfolded AddRecord_def]
proof (cases rule: AddRecord_loop_cases)
  case (last rest')
  with success have "rest' = []" by simp
  with AddRecord_body_rest [OF last(1)] long show ?thesis
    by simp
next
  case (step s1 w1 rest1)
  from long have gt: "\<not> length p \<le> avail_at (block_offset w)"
    by simp
  from AddRecord_body_events [OF step(1)] obtain es0 where
    0: "history w1 = history w @ es0" "emitted_types es0 = [kFirstType]"
       "emitted_payloads es0 = [take (avail_at (block_offset w)) p]"
    using gt by (auto simp: fragment_type_def min_def)
  have r1: "rest1 = drop (avail_at (block_offset w)) p"
    using AddRecord_body_SomeD(2) [OF step(1)] gt by (simp add: min_def)
  from AddRecord_loop_tail [OF step(4) _ success] obtain es1 k where
    1: "history w' = history w1 @ es1" "emitted_types es1 = replicate k kMiddleType @ [kLastType]"
       "concat (emitted_payloads es1) = rest1"
    by auto
  have "history w' = history w @ (es0 @ es1) \<and>
        emitted_types (es0 @ es1) = kFirstType # replicate k kMiddleType @ [kLastType] \<and>
        concat (emitted_payloads (es0 @ es1)) = p"
    using 0 1 r1 by simp
  then show ?thesis by blast
qed

text \<open>
  The witness writes 32780 bytes with 18 bytes left in the block: 11 bytes in a
  \<open>First\<close> record, a whole block in a \<open>Middle\<close> record, 8 bytes in a \<open>Last\<close> record.
\<close>

theorem split_record_fragments_witness:
  "\<forall>crc. \<exists>w' es k.
     avail_at (block_offset (Writer_resume crc sink_ok 32750)) < length (replicate 32780 (1 :: byte)) \<and>
     AddRecord crc (Writer_resume crc sink_ok 32750) (replicate 32780 1) = Some (OK, w') \<and>
     history w' = [Emit 32750 kFirstType (replicate 11 1) OK, Emit 0 kMiddleType (replicate 32761 1) OK,
                   Emit 0 kLastType (replicate 8 1) OK] \<and>
     history w' = es \<and> emitted_types es = kFirstType # replicate k kMiddleType @ [kLastType] \<and>
     concat (emitted_payloads es) = replicate 32780 1"
proof
  fix crc
  let ?w = "Writer_resume crc sink_ok 32750"
  let ?p = "replicate 32780 (1 :: byte)"
  have h0: "history ?w = []"
    by (simp add: Writer_resume_def)
  have long: "avail_at (block_offset ?w) < length ?p"
    by (simp add: Writer_resume_def avail_at_def header_offset_def kBlockSize_def kHeaderSize_def)
  have "\<exists>w'. AddRecord crc ?w ?p = Some (OK, w') \<and>
     history w' = [Emit 32750 kFirstType (replicate 11 1) OK, Emit 0 kMiddleType (replicate 32761 1) OK,
                   Emit 0 kLastType (replicate 8 1) OK]"
    by (simp add: AddRecord_def AddRecord_loop.simps AddRecord_body_def EmitPhysicalRecord_def
        Let_def Append_def Flush_def Writer_resume_def sink_ok_def kBlockSize_def kHeaderSize_def)
  then obtain w' where run: "AddRecord crc ?w ?p = Some (OK, w')"
    and h: "history w' = [Emit 32750 kFirstType (replicate 11 1) OK,
                   Emit 0 kMiddleType (replicate 32761 1) OK, Emit 0 kLastType (replicate 8 1) OK]"
    by blast
  from split_record_fragments [OF long run] obtain es k where
    "history w' = history ?w @ es"
    "emitted_types es = kFirstType # replicate k kMiddleType @ [kLastType]"
    "concat (emitted_payloads es) = ?p"
    by auto
  with long run h h0
  show "\<exists>w' es k.
     avail_at (block_offset ?w) < length ?p \<and>
     AddRecord crc ?w ?p = Some (OK, w') \<and>
     history w' = [Emit 32750 kFirstType (replicate 11 1) OK, Emit 0 kMiddleType (replicate 32761 1) OK,
                   Emit 0 kLastType (replicate 8 1) OK] \<and>
     history w' = es \<and> emitted_types es = kFirstType # replicate k kMiddleType @ [kLastType] \<and>
     concat (emitted_payloads es) = ?p"
    by (metis append_Nil)
qed

subsection \<open>C4: the cursor advances whatever the sink answers\<close>

text \<open>
  C4. For every call of \<^verbatim>\<open>EmitPhysicalRecord\<close> that meets its two assertions, and for
  every sink (so whether the header append, the payload append or the flush succeeds
  or fails), the call returns and the in-block cursor has advanced by exactly
  \<open>kHeaderSize + length\<close>.
\<close>

theorem EmitPhysicalRecord_advances_cursor:
  assumes "length payload \<le> 0xffff"
    and "block_offset w + kHeaderSize + int (length payload) \<le> kBlockSize"
  shows "\<exists>s w'. EmitPhysicalRecord crc w t payload = Some (s, w') \<and>
           block_offset w' = block_offset w + kHeaderSize + int (length payload)"
proof -
  from assms obtain s w' where e: "EmitPhysicalRecord crc w t payload = Some (s, w')"
    using EmitPhysicalRecord_Some_ex [of payload w crc t] by auto
  from EmitPhysicalRecord_SomeD(3) [OF e] e show ?thesis
    by blast
qed

text \<open>
  The witness runs the call on a sink that fails from its first call on: the header
  append fails, the payload is never appended, and the cursor still moves from 100 to
  110.
\<close>

theorem EmitPhysicalRecord_advances_cursor_witness:
  "\<forall>crc. \<exists>s w'. EmitPhysicalRecord crc (Writer_resume crc (sink_failing_from 1) 100) kFullType [1, 2, 3]
                     = Some (s, w') \<and>
           \<not> ok s \<and> length (calls (dest w')) = 1 \<and> block_offset w' = 110"
proof
  fix crc
  show "\<exists>s w'. EmitPhysicalRecord crc (Writer_resume crc (sink_failing_from 1) 100) kFullType [1, 2, 3]
                     = Some (s, w') \<and>
           \<not> ok s \<and> length (calls (dest w')) = 1 \<and> block_offset w' = 110"
    using EmitPhysicalRecord_advances_cursor
      [of "[1, 2, 3]" "Writer_resume crc (sink_failing_from 1) 100" crc kFullType]
    by (auto simp: Writer_resume_def sink_failing_from_def kBlockSize_def kHeaderSize_def
        EmitPhysicalRecord_def Let_def Append_def Flush_def)
qed

subsection \<open>C5: the first failure is returned and ends the loop\<close>

text \<open>
  C5. \<^verbatim>\<open>EmitPhysicalRecord\<close> calls the sink's \<open>Append\<close> for the header, then
  \<open>Append\<close> for the payload, then \<open>Flush\<close>; it stops at the first call whose status
  is not ok and returns that status as the sink gave it, and returns the status of the
  flush when the two appends succeeded. \<^verbatim>\<open>AddRecord\<close> returns the status of the last
  physical record it emitted, every record emitted before that one succeeded, and the
  payloads emitted are a prefix of \<open>p\<close>: nothing is emitted after a failed emission.
  When the call returns success the payloads are all of \<open>p\<close>.
\<close>

theorem first_failure_is_returned:
  "(EmitPhysicalRecord crc w t payload = Some (s, w') \<longrightarrow>
      (let r = respond (dest w);
           h1 = calls (dest w) @ [AppendCall (header_of crc (type_crc w) t payload)];
           h2 = h1 @ [AppendCall payload];
           h3 = h2 @ [FlushCall]
       in (\<not> ok (r h1) \<and> s = r h1 \<and> calls (dest w') = h1) \<or>
          (ok (r h1) \<and> \<not> ok (r h2) \<and> s = r h2 \<and> calls (dest w') = h2) \<or>
          (ok (r h1) \<and> ok (r h2) \<and> s = r h3 \<and> calls (dest w') = h3))) \<and>
   (AddRecord crc v p = Some (s', v') \<longrightarrow>
      (\<exists>es k m. history v' = history v @ es \<and>
         emitted_statuses es = replicate k OK @ [s'] \<and>
         concat (emitted_payloads es) = take m p \<and>
         (ok s' \<longrightarrow> concat (emitted_payloads es) = p)))"
proof (intro conjI impI)
  assume "EmitPhysicalRecord crc w t payload = Some (s, w')"
  from EmitPhysicalRecord_statuses [OF this]
  show "let r = respond (dest w);
           h1 = calls (dest w) @ [AppendCall (header_of crc (type_crc w) t payload)];
           h2 = h1 @ [AppendCall payload];
           h3 = h2 @ [FlushCall]
       in (\<not> ok (r h1) \<and> s = r h1 \<and> calls (dest w') = h1) \<or>
          (ok (r h1) \<and> \<not> ok (r h2) \<and> s = r h2 \<and> calls (dest w') = h2) \<or>
          (ok (r h1) \<and> ok (r h2) \<and> s = r h3 \<and> calls (dest w') = h3)"
    by (simp add: Let_def)
next
  assume "AddRecord crc v p = Some (s', v')"
  from AddRecord_loop_statuses [OF this [unfolded AddRecord_def]]
  show "\<exists>es k m. history v' = history v @ es \<and>
         emitted_statuses es = replicate k OK @ [s'] \<and>
         concat (emitted_payloads es) = take m p \<and>
         (ok s' \<longrightarrow> concat (emitted_payloads es) = p)" .
qed

text \<open>
  The witness: on a sink that fails from its second call on, an emission stops after the
  payload append (no flush); on a sink that fails from its fifth call on, a record of
  70000 bytes stops at the payload append of its second fragment, and the third
  fragment is never emitted.
\<close>

theorem first_failure_is_returned_witness:
  "\<forall>crc. \<exists>w' v' k m.
     EmitPhysicalRecord crc (Writer_new crc (sink_failing_from 2)) kFullType [1] = Some (Failed (), w') \<and>
     calls (dest w') = [AppendCall (header_of crc (InitTypeCrc crc) kFullType [1]), AppendCall [1]] \<and>
     AddRecord crc (Writer_new crc (sink_failing_from 5)) (replicate 70000 1) = Some (Failed (), v') \<and>
     emitted_statuses (history v') = [OK, Failed ()] \<and>
     emitted_statuses (history v') = replicate k OK @ [Failed ()] \<and>
     emitted_payloads (history v') = [replicate 32761 1, replicate 32761 1] \<and>
     concat (emitted_payloads (history v')) = take m (replicate 70000 1)"
proof
  fix crc
  let ?w = "Writer_new crc (sink_failing_from 2)"
  let ?v = "Writer_new crc (sink_failing_from 5)"
  let ?p = "replicate 70000 (1 :: byte)"
  have "\<exists>w'. EmitPhysicalRecord crc ?w kFullType [1] = Some (Failed (), w')"
    by (simp add: EmitPhysicalRecord_def Let_def Append_def Flush_def Writer_new_def
        sink_failing_from_def kBlockSize_def kHeaderSize_def)
  then obtain w' where e: "EmitPhysicalRecord crc ?w kFullType [1] = Some (Failed (), w')"
    by blast
  have "\<exists>v'. AddRecord crc ?v ?p = Some (Failed (), v') \<and>
      emitted_statuses (history v') = [OK, Failed ()] \<and>
      emitted_payloads (history v') = [replicate 32761 1, replicate 32761 1]"
    by (simp add: AddRecord_def AddRecord_loop.simps AddRecord_body_def EmitPhysicalRecord_def
        Let_def Append_def Flush_def Writer_new_def sink_failing_from_def kBlockSize_def
        kHeaderSize_def)
  then obtain v' where a: "AddRecord crc ?v ?p = Some (Failed (), v')"
    and st: "emitted_statuses (history v') = [OK, Failed ()]"
    and pl: "emitted_payloads (history v') = [replicate 32761 1, replicate 32761 1]"
    by blast
  note inst = first_failure_is_returned [of crc ?w kFullType "[1]" "Failed ()" w' ?v ?p "Failed ()" v']
  from inst e
  have c: "calls (dest w') = [AppendCall (header_of crc (InitTypeCrc crc) kFullType [1]), AppendCall [1]]"
    by (simp add: Let_def Writer_new_def sink_failing_from_def)
  from inst a obtain es k m where "history v' = history ?v @ es"
    "emitted_statuses es = replicate k OK @ [Failed ()]"
    "concat (emitted_payloads es) = take m ?p"
    by blast
  then have "emitted_statuses (history v') = replicate k OK @ [Failed ()]"
    "concat (emitted_payloads (history v')) = take m ?p"
    by (simp_all add: Writer_new_def)
  with e a c st pl
  show "\<exists>w' v' k m.
     EmitPhysicalRecord crc ?w kFullType [1] = Some (Failed (), w') \<and>
     calls (dest w') = [AppendCall (header_of crc (InitTypeCrc crc) kFullType [1]), AppendCall [1]] \<and>
     AddRecord crc ?v ?p = Some (Failed (), v') \<and>
     emitted_statuses (history v') = [OK, Failed ()] \<and>
     emitted_statuses (history v') = replicate k OK @ [Failed ()] \<and>
     emitted_payloads (history v') = [replicate 32761 1, replicate 32761 1] \<and>
     concat (emitted_payloads (history v')) = take m ?p"
    by blast
qed

subsection \<open>C6: the empty record\<close>

text \<open>
  C6, as stated: from every writer state, \<^verbatim>\<open>AddRecord\<close> of an empty payload emits one
  \<open>Full\<close> record of length 0 and advances the cursor by exactly \<open>kHeaderSize\<close>.
  The cursor part fails where fewer than \<open>kHeaderSize\<close> bytes are left in the block:
  for a writer resumed on a file of 32765 bytes (cursor 32765), the call writes a
  trailer of 3 zero bytes, resets the cursor to 0 and leaves it at 7, not at
  \<open>32765 + 7\<close>.
\<close>

theorem empty_record_cursor_counterexample:
  "block_offset (Writer_resume crc_sum sink_ok 32765) = 32765 \<and>
   outcome (AddRecord crc_sum (Writer_resume crc_sum sink_ok 32765) []) =
     Some (OK, 7, [Trailer 3 [0, 0, 0], Emit 0 kFullType [] OK]) \<and>
   (7 :: int) \<noteq> 32765 + kHeaderSize"
  by (simp add: outcome_def AddRecord_def AddRecord_loop.simps AddRecord_body_def
      EmitPhysicalRecord_def Let_def Append_def Flush_def Writer_resume_def sink_ok_def
      kBlockSize_def kHeaderSize_def numeral_3_eq_3)

text \<open>
  C6, amended. For every writer state, that is every state reached from either
  constructor by a sequence of \<^verbatim>\<open>AddRecord\<close> calls, \<^verbatim>\<open>AddRecord\<close> of an empty
  payload returns and emits exactly one physical record, of type \<open>Full\<close> with
  payload length 0 (after a trailer when between 1 and 6 bytes were left). The
  cursor ends \<open>kHeaderSize\<close> bytes after the offset at which that record's header
  starts: at \<open>cursor + kHeaderSize\<close> when at least \<open>kHeaderSize\<close> bytes were left in
  the block, and at \<open>kHeaderSize\<close> otherwise.
\<close>

theorem empty_record_one_full_record:
  assumes constructed: "w0 = Writer_new crc d \<or> w0 = Writer_resume crc d dest_length"
    and reached: "AddRecords crc w0 ps = Some w"
  shows "\<exists>s w' es. AddRecord crc w [] = Some (s, w') \<and>
           history w' = history w @ es \<and>
           es = trailer_events (block_offset w) @ [Emit (header_offset (block_offset w)) kFullType [] s] \<and>
           emitted_types es = [kFullType] \<and> emitted_payloads es = [[]] \<and>
           block_offset w' = header_offset (block_offset w) + kHeaderSize \<and>
           (kHeaderSize \<le> kBlockSize - block_offset w \<longrightarrow>
              block_offset w' = block_offset w + kHeaderSize) \<and>
           (kBlockSize - block_offset w < kHeaderSize \<longrightarrow> block_offset w' = kHeaderSize)"
proof -
  note c = constructed_cursor [OF constructed]
  from c(2) have "block_offset w0 \<le> kBlockSize" by simp
  from AddRecords_trace [OF c(1) this, of crc ps] reached
  have valid: "0 \<le> block_offset w" "block_offset w \<le> kBlockSize"
    by auto
  from AddRecord_single [OF valid, of "[]" crc] obtain s w' where
    run: "AddRecord crc w [] = Some (s, w')" and body: "AddRecord_body crc w [] True = Some (s, w', [])"
    by auto
  note d = AddRecord_body_SomeD [OF body]
  let ?es = "trailer_events (block_offset w) @ [Emit (header_offset (block_offset w)) kFullType [] s]"
  have "history w' = history w @ ?es"
    using d(4) by (simp add: fragment_type_def)
  moreover have "block_offset w' = header_offset (block_offset w) + kHeaderSize"
    using d(3) by simp
  moreover have "emitted_types ?es = [kFullType]" "emitted_payloads ?es = [[]]"
    by simp_all
  ultimately show ?thesis
    using run by (auto simp: header_offset_def)
qed

text \<open>
  The witness writes three bytes at offset 100 of a block, which leaves the cursor at
  110, and then the empty record, which leaves it at 117.
\<close>

theorem empty_record_one_full_record_witness:
  "\<forall>crc. \<exists>w s w'. AddRecords crc (Writer_resume crc sink_ok 100) [[1, 2, 3]] = Some w \<and>
     block_offset w = 110 \<and>
     AddRecord crc w [] = Some (s, w') \<and>
     history w' = history w @ [Emit 110 kFullType [] s] \<and> block_offset w' = 117"
proof
  fix crc
  let ?w0 = "Writer_resume crc sink_ok 100"
  have "\<exists>w. AddRecords crc ?w0 [[1, 2, 3]] = Some w \<and> block_offset w = 110"
    by (simp add: AddRecord_def AddRecord_loop.simps AddRecord_body_def EmitPhysicalRecord_def
        Let_def Append_def Flush_def Writer_resume_def sink_ok_def kBlockSize_def kHeaderSize_def)
  then obtain w where reached: "AddRecords crc ?w0 [[1, 2, 3]] = Some w" and c: "block_offset w = 110"
    by blast
  have "?w0 = Writer_new crc sink_ok \<or> ?w0 = Writer_resume crc sink_ok 100"
    by simp
  from empty_record_one_full_record [OF this reached] reached c
  show "\<exists>w s w'. AddRecords crc ?w0 [[1, 2, 3]] = Some w \<and>
     block_offset w = 110 \<and>
     AddRecord crc w [] = Some (s, w') \<and>
     history w' = history w @ [Emit 110 kFullType [] s] \<and> block_offset w' = 117"
    by (auto simp: trailer_events_def header_offset_def kBlockSize_def kHeaderSize_def)
qed

subsection \<open>C7: a payload that fits the first block\<close>

text \<open>
  C7. For every payload \<open>p\<close> with \<open>len(p) \<le> 65535\<close> that a fresh writer (cursor 0)
  takes without going past the end of its block (\<open>kHeaderSize + len(p) \<le> kBlockSize\<close>),
  \<^verbatim>\<open>AddRecord(p)\<close> emits exactly one physical record, of type \<open>Full\<close> with payload
  \<open>p\<close>. Its header has the length field \<open>len(p)\<close> and the checksum
  \<open>Mask (Extend (Value [type byte of Full]) p)\<close>. The sink receives the header, then
  the payload \<open>p\<close>, then the flush, each only if the call before it succeeded, and
  nothing else; the call returns the status of the last of these calls.
\<close>

theorem fresh_writer_full_record:
  assumes "length p \<le> 65535" and "kHeaderSize + int (length p) \<le> kBlockSize"
  shows "\<exists>s w' hdr.
           AddRecord crc (Writer_new crc d) p = Some (s, w') \<and>
           history w' = [Emit 0 kFullType p s] \<and>
           length hdr = 7 \<and>
           hdr ! 6 = of_nat (type_code kFullType) \<and>
           unat (hdr ! 4) + 256 * unat (hdr ! 5) = length p \<and>
           take 4 hdr = EncodeFixed32 (Mask crc (Extend crc (Value crc [of_nat (type_code kFullType)]) p)) \<and>
           le32 hdr = unat (Mask crc (Extend crc (Value crc [of_nat (type_code kFullType)]) p)) \<and>
           (let r = respond d;
                h1 = calls d @ [AppendCall hdr];
                h2 = h1 @ [AppendCall p];
                h3 = h2 @ [FlushCall]
            in (\<not> ok (r h1) \<and> s = r h1 \<and> calls (dest w') = h1) \<or>
               (ok (r h1) \<and> \<not> ok (r h2) \<and> s = r h2 \<and> calls (dest w') = h2) \<or>
               (ok (r h1) \<and> ok (r h2) \<and> s = r h3 \<and> calls (dest w') = h3))"
proof -
  let ?w = "Writer_new crc d"
  have w: "block_offset ?w = 0" "history ?w = []" "type_crc ?w = InitTypeCrc crc" "dest ?w = d"
    by (simp_all add: Writer_new_def)
  have av: "avail_at 0 = nat (kBlockSize - kHeaderSize)" and ho: "header_offset 0 = 0"
    and te: "trailer_events 0 = []"
    by (simp_all add: avail_at_def header_offset_def trailer_events_def kBlockSize_def kHeaderSize_def)
  have fits: "length p \<le> avail_at 0"
    using assms(2) unfolding av by linarith
  have "0 \<le> block_offset ?w" "block_offset ?w \<le> kBlockSize"
    by (simp_all add: w kBlockSize_def)
  from AddRecord_single [OF this, of p crc] fits obtain s w' where
    run: "AddRecord crc ?w p = Some (s, w')" and body: "AddRecord_body crc ?w p True = Some (s, w', [])"
    by (auto simp: w)
  let ?hdr = "header_of crc (InitTypeCrc crc) kFullType p"
  have h: "history w' = [Emit 0 kFullType p s]"
    using AddRecord_body_SomeD(4) [OF body] fits by (simp add: w ho te fragment_type_def)
  have pe: "calls (dest (pre_emit ?w)) = calls d"
    by (simp add: pre_emit_calls w kBlockSize_def kHeaderSize_def)
  have e: "EmitPhysicalRecord crc (pre_emit ?w) kFullType p = Some (s, w')"
    using AddRecord_body_emit [OF body] fits by (simp add: w fragment_type_def)
  have st: "let r = respond d;
                h1 = calls d @ [AppendCall ?hdr];
                h2 = h1 @ [AppendCall p];
                h3 = h2 @ [FlushCall]
            in (\<not> ok (r h1) \<and> s = r h1 \<and> calls (dest w') = h1) \<or>
               (ok (r h1) \<and> \<not> ok (r h2) \<and> s = r h2 \<and> calls (dest w') = h2) \<or>
               (ok (r h1) \<and> ok (r h2) \<and> s = r h3 \<and> calls (dest w') = h3)"
    using EmitPhysicalRecord_statuses [OF e] by (simp add: Let_def pre_emit_simps pe w)
  have entry: "InitTypeCrc crc ! type_code kFullType = Value crc [of_nat (type_code kFullType)]"
    by (rule InitTypeCrc_nth)
  have f1: "unat (?hdr ! 4) + 256 * unat (?hdr ! 5) = length p"
    using assms(1) by (simp add: header_of_fields)
  have f2: "length ?hdr = 7" "?hdr ! 6 = of_nat (type_code kFullType)"
    "take 4 ?hdr = EncodeFixed32 (Mask crc (Extend crc (Value crc [of_nat (type_code kFullType)]) p))"
    "le32 ?hdr = unat (Mask crc (Extend crc (Value crc [of_nat (type_code kFullType)]) p))"
    using entry by (simp_all add: header_of_fields)
  show ?thesis
    by (rule exI [of _ s], rule exI [of _ w'], rule exI [of _ ?hdr], intro conjI)
       (rule run h f1 f2 st)+
qed

text \<open>
  The witness is the longest such payload, 32761 bytes (\<open>32761 = 249 + 256 * 127\<close>), on
  a sink whose calls succeed: the sink receives the header, the payload and the flush.
\<close>

theorem fresh_writer_full_record_witness:
  "\<forall>crc. \<exists>w' hdr.
     AddRecord crc (Writer_new crc sink_ok) (replicate 32761 7) = Some (OK, w') \<and>
     history w' = [Emit 0 kFullType (replicate 32761 7) OK] \<and>
     calls (dest w') = [AppendCall hdr, AppendCall (replicate 32761 7), FlushCall] \<and>
     length hdr = 7 \<and> hdr ! 6 = 1 \<and> unat (hdr ! 4) + 256 * unat (hdr ! 5) = 32761 \<and>
     take 4 hdr = EncodeFixed32 (Mask crc (Extend crc (Value crc [1]) (replicate 32761 7)))"
proof
  fix crc
  have "length (replicate 32761 (7 :: byte)) \<le> 65535"
    and "kHeaderSize + int (length (replicate 32761 (7 :: byte))) \<le> kBlockSize"
    by (simp_all add: kBlockSize_def kHeaderSize_def)
  from fresh_writer_full_record [OF this, of crc sink_ok]
  show "\<exists>w' hdr.
     AddRecord crc (Writer_new crc sink_ok) (replicate 32761 7) = Some (OK, w') \<and>
     history w' = [Emit 0 kFullType (replicate 32761 7) OK] \<and>
     calls (dest w') = [AppendCall hdr, AppendCall (replicate 32761 7), FlushCall] \<and>
     length hdr = 7 \<and> hdr ! 6 = 1 \<and> unat (hdr ! 4) + 256 * unat (hdr ! 5) = 32761 \<and>
     take 4 hdr = EncodeFixed32 (Mask crc (Extend crc (Value crc [1]) (replicate 32761 7)))"
    by (simp add: sink_ok_def Let_def) blast
qed

subsection \<open>C8: 40000 bytes into a fresh writer\<close>

text \<open>
  C8. On an empty file whose every call succeeds, \<^verbatim>\<open>AddRecord\<close> of a payload of 40000
  bytes into a fresh writer returns success and emits exactly two physical records: a
  \<open>First\<close> record with the first 32761 bytes and a \<open>Last\<close> record with the other
  7239 bytes. The sink receives header, payload and flush of the first record, then
  header, payload and flush of the second, and nothing else (no trailer); the bytes
  appended before the second header number 32768, so it starts the second block.
\<close>

theorem forty_thousand_bytes:
  assumes len: "length p = 40000"
    and fresh: "calls d = []"
    and succeeds: "\<forall>h. respond d h = OK"
  shows "\<exists>w' h1 h2.
           AddRecord crc (Writer_new crc d) p = Some (OK, w') \<and>
           history w' = [Emit 0 kFirstType (take 32761 p) OK, Emit 0 kLastType (drop 32761 p) OK] \<and>
           length (take 32761 p) = 32761 \<and> length (drop 32761 p) = 7239 \<and>
           calls (dest w') = [AppendCall h1, AppendCall (take 32761 p), FlushCall,
                              AppendCall h2, AppendCall (drop 32761 p), FlushCall] \<and>
           h1 = header_of crc (InitTypeCrc crc) kFirstType (take 32761 p) \<and>
           h2 = header_of crc (InitTypeCrc crc) kLastType (drop 32761 p) \<and>
           length h1 = 7 \<and> length h2 = 7 \<and>
           length (appended [AppendCall h1, AppendCall (take 32761 p), FlushCall]) = 32768"
proof -
  have "\<exists>w'. AddRecord crc (Writer_new crc d) p = Some (OK, w') \<and>
           history w' = [Emit 0 kFirstType (take 32761 p) OK, Emit 0 kLastType (drop 32761 p) OK] \<and>
           calls (dest w') =
             [AppendCall (header_of crc (InitTypeCrc crc) kFirstType (take 32761 p)),
              AppendCall (take 32761 p), FlushCall,
              AppendCall (header_of crc (InitTypeCrc crc) kLastType (drop 32761 p)),
              AppendCall (drop 32761 p), FlushCall]"
    using assms
    by (simp add: AddRecord_def AddRecord_loop.simps AddRecord_body_def EmitPhysicalRecord_def
        Let_def Append_def Flush_def Writer_new_def header_of_def kBlockSize_def kHeaderSize_def)
  moreover have "length (take 32761 p) = 32761" "length (drop 32761 p) = 7239"
    using len by simp_all
  moreover have "length (header_of crc (InitTypeCrc crc) t q) = 7" for t q
    by (simp add: header_of_fields)
  ultimately show ?thesis
    by auto
qed

text \<open>The witness is a payload of 40000 bytes of value 3.\<close>

theorem forty_thousand_bytes_witness:
  "\<forall>crc. \<exists>w' h1 h2.
     AddRecord crc (Writer_new crc sink_ok) (replicate 40000 3) = Some (OK, w') \<and>
     history w' = [Emit 0 kFirstType (replicate 32761 3) OK, Emit 0 kLastType (replicate 7239 3) OK] \<and>
     calls (dest w') = [AppendCall h1, AppendCall (replicate 32761 3), FlushCall,
                        AppendCall h2, AppendCall (replicate 7239 3), FlushCall] \<and>
     length h1 = 7 \<and> length h2 = 7"
proof
  fix crc
  have "length (replicate 40000 (3 :: byte)) = 40000" "calls sink_ok = []"
    "\<forall>h. respond sink_ok h = OK"
    by (simp_all add: sink_ok_def)
  from forty_thousand_bytes [OF this, of crc]
  show "\<exists>w' h1 h2.
     AddRecord crc (Writer_new crc sink_ok) (replicate 40000 3) = Some (OK, w') \<and>
     history w' = [Emit 0 kFirstType (replicate 32761 3) OK, Emit 0 kLastType (replicate 7239 3) OK] \<and>
     calls (dest w') = [AppendCall h1, AppendCall (replicate 32761 3), FlushCall,
                        AppendCall h2, AppendCall (replicate 7239 3), FlushCall] \<and>
     length h1 = 7 \<and> length h2 = 7"
    by simp blast
qed

subsection \<open>C9: the assertions never fail\<close>

text \<open>
  C9. For a writer made by either constructor (initial cursor 0, or
  \<open>dest_length mod kBlockSize\<close>) and every sequence of \<^verbatim>\<open>AddRecord\<close> calls with
  payloads of any length, on any sink: the run returns (none of the four assertions
  fails); the cursor is the one the history leaves, and after every prefix of the
  history it lies between 0 and \<open>kBlockSize\<close>; every fragment passed to
  \<^verbatim>\<open>EmitPhysicalRecord\<close> has \<open>length \<le> 0xffff\<close> and
  \<open>cursor + kHeaderSize + length \<le> kBlockSize\<close>; and every trailer has
  \<open>1 \<le> leftover \<le> 6\<close> and takes exactly \<open>leftover\<close> bytes of the six-byte literal.
\<close>

theorem AddRecord_assertions_hold:
  assumes "w = Writer_new crc d \<or> w = Writer_resume crc d dest_length"
  shows "\<exists>w'. AddRecords crc w ps = Some w' \<and>
           block_offset w' = cursor_after (block_offset w) (history w') \<and>
           (\<forall>es1 es2. history w' = es1 @ es2 \<longrightarrow>
              0 \<le> cursor_after (block_offset w) es1 \<and> cursor_after (block_offset w) es1 \<le> kBlockSize) \<and>
           (\<forall>off t p s. Emit off t p s \<in> set (history w') \<longrightarrow>
              length p \<le> 0xffff \<and> off + kHeaderSize + int (length p) \<le> kBlockSize) \<and>
           (\<forall>l zs. Trailer l zs \<in> set (history w') \<longrightarrow> 1 \<le> l \<and> l \<le> 6 \<and> length zs = nat l)"
proof -
  note c = constructed_cursor [OF assms]
  from c(2) have le: "block_offset w \<le> kBlockSize" by simp
  from AddRecords_trace [OF c(1) le, of crc ps] obtain w' where
    run: "AddRecords crc w ps = Some w'"
    and cur: "block_offset w' = cursor_after (block_offset w) (history w')"
    and k: "\<forall>k. framed (block_offset w') k \<longrightarrow> framed (block_offset w) (history w' @ k)"
    by (auto simp: c(3))
  from k have fr: "framed (block_offset w) (history w')"
    by (auto dest: spec [of _ "[]"])
  have "0 \<le> cursor_after (block_offset w) es1 \<and> cursor_after (block_offset w) es1 \<le> kBlockSize"
    if "history w' = es1 @ es2" for es1 es2
    using framed_prefix_cursor [of "block_offset w" es1 es2] fr c(1) le that by simp
  moreover have "length p \<le> 0xffff \<and> off + kHeaderSize + int (length p) \<le> kBlockSize"
    if "Emit off t p s \<in> set (history w')" for off t p s
    using framed_EmitD [OF fr that] by simp
  moreover have "1 \<le> l \<and> l \<le> 6 \<and> length zs = nat l"
    if "Trailer l zs \<in> set (history w')" for l zs
  proof -
    from that obtain es1 es2 where "history w' = es1 @ Trailer l zs # es2"
      by (auto simp: in_set_conv_decomp)
    with framed_TrailerD [of "block_offset w" es1 l zs es2] fr show ?thesis
      by (simp add: kHeaderSize_def)
  qed
  ultimately show ?thesis
    using run cur by blast
qed

text \<open>
  The witness resumes on a file of 98302 bytes (cursor 32766) with a sink that fails
  from its fifth call on, and keeps calling \<^verbatim>\<open>AddRecord\<close> after the failures.
\<close>

theorem AddRecord_assertions_hold_witness:
  "\<forall>crc. \<exists>w'. AddRecords crc (Writer_resume crc (sink_failing_from 5) 98302) [[7, 7, 7], [], [9]] = Some w' \<and>
     history w' = [Trailer 2 (replicate 2 0), Emit 0 kFullType [7, 7, 7] OK,
                   Emit 10 kFullType [] (Failed ()), Emit 17 kFullType [9] (Failed ())] \<and>
     block_offset w' = 25 \<and> cursor_after 32766 (history w') = 25"
proof
  fix crc
  let ?w = "Writer_resume crc (sink_failing_from 5) 98302"
  have c0: "block_offset ?w = 32766"
    by (simp add: Writer_resume_def kBlockSize_def)
  have "\<exists>w'. AddRecords crc ?w [[7, 7, 7], [], [9]] = Some w' \<and>
      history w' = [Trailer 2 (replicate 2 0), Emit 0 kFullType [7, 7, 7] OK,
                   Emit 10 kFullType [] (Failed ()), Emit 17 kFullType [9] (Failed ())]
      \<and> block_offset w' = 25"
    by (simp add: AddRecord_def AddRecord_loop.simps AddRecord_body_def EmitPhysicalRecord_def
        Let_def Append_def Flush_def Writer_resume_def sink_failing_from_def kBlockSize_def
        kHeaderSize_def)
  then obtain w' where run: "AddRecords crc ?w [[7, 7, 7], [], [9]] = Some w'"
    and h: "history w' = [Trailer 2 (replicate 2 0), Emit 0 kFullType [7, 7, 7] OK,
                   Emit 10 kFullType [] (Failed ()), Emit 17 kFullType [9] (Failed ())]"
    and b: "block_offset w' = 25"
    by blast
  from AddRecord_assertions_hold [of ?w crc "sink_failing_from 5" 98302 "[[7, 7, 7], [], [9]]"]
  obtain w'' where "AddRecords crc ?w [[7, 7, 7], [], [9]] = Some w''"
    "block_offset w'' = cursor_after (block_offset ?w) (history w'')"
    by blast
  with run have "block_offset w' = cursor_after (block_offset ?w) (history w')"
    by simp
  then have "cursor_after 32766 (history w') = 25"
    by (simp only: c0 b)
  with run h b
  show "\<exists>w'. AddRecords crc ?w [[7, 7, 7], [], [9]] = Some w' \<and>
     history w' = [Trailer 2 (replicate 2 0), Emit 0 kFullType [7, 7, 7] OK,
                   Emit 10 kFullType [] (Failed ()), Emit 17 kFullType [9] (Failed ())] \<and>
     block_offset w' = 25 \<and> cursor_after 32766 (history w') = 25"
    by blast
qed

subsection \<open>C10: a header-only record at the end of a block\<close>

text \<open>
  C10, as stated: called with a non-empty payload \<open>p\<close> when the cursor is
  \<open>kBlockSize - kHeaderSize\<close>, \<^verbatim>\<open>AddRecord\<close> first emits a \<open>First\<close> record of length
  0, and the fragments after it carry all bytes of \<open>p\<close>. The second part fails when
  an emission fails: for a writer resumed on a file of 32761 bytes, a payload of one
  byte and a sink whose first \<open>Append\<close> fails, the header-only record is the only
  one emitted, the call returns the failure, and no fragment carries the byte.
\<close>

theorem header_only_first_record_counterexample:
  "block_offset (Writer_resume crc_sum (sink_failing_from 1) 32761) = kBlockSize - kHeaderSize \<and>
   outcome (AddRecord crc_sum (Writer_resume crc_sum (sink_failing_from 1) 32761) [9]) =
     Some (Failed (), 32768, [Emit 32761 kFirstType [] (Failed ())]) \<and>
   concat (emitted_payloads [Emit 32761 kFirstType [] (Failed ())]) \<noteq> [9 :: byte]"
  by (simp add: outcome_def AddRecord_def AddRecord_loop.simps AddRecord_body_def
      EmitPhysicalRecord_def Let_def Append_def Flush_def Writer_resume_def sink_failing_from_def
      kBlockSize_def kHeaderSize_def)

text \<open>
  C10, amended. Called with a non-empty payload \<open>p\<close> when the cursor is
  \<open>kBlockSize - kHeaderSize\<close>, \<^verbatim>\<open>AddRecord\<close> first emits a \<open>First\<close> record of length
  0 at that offset (a header that exactly fills the block); every physical record
  after it starts at offset 0 of a later block, with no trailer in between; and when
  the call returns success there are such records and their payloads, concatenated,
  are \<open>p\<close>.
\<close>

theorem header_only_first_record:
  assumes cursor: "block_offset w = kBlockSize - kHeaderSize"
    and nonempty: "p \<noteq> []"
    and run: "AddRecord crc w p = Some (s, w')"
  shows "\<exists>s1 es. history w' = history w @ Emit (kBlockSize - kHeaderSize) kFirstType [] s1 # es \<and>
           list_all at_block_start es \<and>
           (ok s \<longrightarrow> es \<noteq> [] \<and> concat (emitted_payloads es) = p)"
proof -
  have ho: "header_offset (block_offset w) = kBlockSize - kHeaderSize"
    and te: "trailer_events (block_offset w) = ([] :: 'a event list)"
    and av: "avail_at (block_offset w) = 0"
    by (simp_all add: cursor header_offset_def trailer_events_def avail_at_def kHeaderSize_def)
  have ev: "history w1 = history w @ [Emit (kBlockSize - kHeaderSize) kFirstType [] s1]"
    and nx: "block_offset w1 = kBlockSize" and r: "rest1 = p"
    if "AddRecord_body crc w p True = Some (s1, w1, rest1)" for s1 w1 rest1
    using AddRecord_body_SomeD(2,3,4) [OF that] nonempty
    by (simp_all add: ho te av fragment_type_def)
  from run [unfolded AddRecord_def] show ?thesis
  proof (cases rule: AddRecord_loop_cases)
    case (last rest')
    from r [OF last(1)] last(2) nonempty have "\<not> ok s"
      by simp
    with ev [OF last(1)] show ?thesis
      by auto
  next
    case (step s1 w1 rest1)
    note e0 = ev [OF step(1)] and r1 = r [OF step(1)]
    from AddRecord_loop_boundary [OF step(4) nx [OF step(1)]] obtain es where
      1: "history w' = history w1 @ es" "list_all at_block_start es"
      by blast
    from AddRecord_loop_statuses [OF step(4)] obtain es' k where
      2: "history w' = history w1 @ es'" "emitted_statuses es' = replicate k OK @ [s]"
         "ok s \<longrightarrow> concat (emitted_payloads es') = rest1"
      by blast
    from 1(1) 2(1) have "es' = es"
      by simp
    with 2 have "es \<noteq> []" "ok s \<longrightarrow> concat (emitted_payloads es) = p"
      by (auto simp: r1)
    moreover have "history w' = history w @ Emit (kBlockSize - kHeaderSize) kFirstType [] s1 # es"
      using e0 1(1) by simp
    ultimately show ?thesis
      using 1(2) by blast
  qed
qed

theorem header_only_first_record_witness:
  "\<forall>crc. \<exists>w' s1 es. AddRecord crc (Writer_resume crc sink_ok 32761) [9] = Some (OK, w') \<and>
     history w' = [Emit 32761 kFirstType [] OK, Emit 0 kLastType [9] OK] \<and>
     history w' = Emit (kBlockSize - kHeaderSize) kFirstType [] s1 # es \<and>
     list_all at_block_start es \<and> concat (emitted_payloads es) = [9]"
proof
  fix crc
  let ?w = "Writer_resume crc sink_ok 32761"
  have c: "block_offset ?w = kBlockSize - kHeaderSize" and h0: "history ?w = []"
    by (simp_all add: Writer_resume_def kBlockSize_def kHeaderSize_def)
  have "\<exists>w'. AddRecord crc ?w [9] = Some (OK, w') \<and>
     history w' = [Emit 32761 kFirstType [] OK, Emit 0 kLastType [9] OK]"
    by (simp add: AddRecord_def AddRecord_loop.simps AddRecord_body_def EmitPhysicalRecord_def
        Let_def Append_def Flush_def Writer_resume_def sink_ok_def kBlockSize_def kHeaderSize_def)
  then obtain w' where run: "AddRecord crc ?w [9] = Some (OK, w')"
    and h: "history w' = [Emit 32761 kFirstType [] OK, Emit 0 kLastType [9] OK]"
    by blast
  from header_only_first_record [OF c _ run] obtain s1 es where
    "history w' = history ?w @ Emit (kBlockSize - kHeaderSize) kFirstType [] s1 # es"
    "list_all at_block_start es" "concat (emitted_payloads es) = [9]"
    by auto
  with run h h0
  show "\<exists>w' s1 es. AddRecord crc ?w [9] = Some (OK, w') \<and>
     history w' = [Emit 32761 kFirstType [] OK, Emit 0 kLastType [9] OK] \<and>
     history w' = Emit (kBlockSize - kHeaderSize) kFirstType [] s1 # es \<and>
     list_all at_block_start es \<and> concat (emitted_payloads es) = [9]"
    by (metis append_Nil)
qed

end
